theory Spec2Isabelle
  imports Complex_Main
begin

chapter \<open>The model\<close>

section \<open>Tick model\<close>

text \<open>
  A C \<open>double\<close> is modelled as a real number or one of the three IEEE special values.
  Arithmetic on finite values is exact (no rounding, no overflow, no signed zero); the
  special values propagate as IEEE 754 prescribes and every comparison with \<open>NaN\<close> is
  false. The guards and comparisons of the code, the branch each selects and the fields
  each branch writes are therefore the code's own, while a computed sum, product,
  quotient or root is the exact one and can differ from the code's in its last places.
  Nothing below states how accurate such a value is.
\<close>

datatype double = Fin real | PInf | NInf | NaN

fun isfinite :: "double \<Rightarrow> bool" where
  "isfinite (Fin _) = True"
| "isfinite _ = False"

fun dneg :: "double \<Rightarrow> double" where
  "dneg (Fin a) = Fin (- a)"
| "dneg PInf = NInf"
| "dneg NInf = PInf"
| "dneg NaN = NaN"

fun dadd :: "double \<Rightarrow> double \<Rightarrow> double" where
  "dadd (Fin a) (Fin b) = Fin (a + b)"
| "dadd NaN _ = NaN"
| "dadd _ NaN = NaN"
| "dadd PInf NInf = NaN"
| "dadd NInf PInf = NaN"
| "dadd PInf _ = PInf"
| "dadd _ PInf = PInf"
| "dadd NInf _ = NInf"
| "dadd _ NInf = NInf"

definition dsub :: "double \<Rightarrow> double \<Rightarrow> double" where
  "dsub a b = dadd a (dneg b)"

text \<open>The sign of an infinite product or quotient, from the sign of the finite operand.\<close>

definition signed_inf :: "bool \<Rightarrow> double" where
  "signed_inf positive = (if positive then PInf else NInf)"

fun dmul :: "double \<Rightarrow> double \<Rightarrow> double" where
  "dmul (Fin a) (Fin b) = Fin (a * b)"
| "dmul NaN _ = NaN"
| "dmul _ NaN = NaN"
| "dmul PInf (Fin b) = (if b = 0 then NaN else signed_inf (0 < b))"
| "dmul NInf (Fin b) = (if b = 0 then NaN else signed_inf (b < 0))"
| "dmul (Fin a) PInf = (if a = 0 then NaN else signed_inf (0 < a))"
| "dmul (Fin a) NInf = (if a = 0 then NaN else signed_inf (a < 0))"
| "dmul PInf PInf = PInf"
| "dmul NInf NInf = PInf"
| "dmul PInf NInf = NInf"
| "dmul NInf PInf = NInf"

text \<open>
  Division as C performs it (\<open>cdivision=True\<close>): a zero divisor gives an infinity or
  \<open>NaN\<close>, never an exception. The zero divisor is taken as \<open>+0\<close>.
\<close>

fun ddiv :: "double \<Rightarrow> double \<Rightarrow> double" where
  "ddiv (Fin a) (Fin b) =
     (if b = 0 then (if a = 0 then NaN else signed_inf (0 < a)) else Fin (a / b))"
| "ddiv NaN _ = NaN"
| "ddiv _ NaN = NaN"
| "ddiv (Fin a) PInf = Fin 0"
| "ddiv (Fin a) NInf = Fin 0"
| "ddiv PInf (Fin b) = signed_inf (0 \<le> b)"
| "ddiv NInf (Fin b) = signed_inf (b < 0)"
| "ddiv PInf PInf = NaN"
| "ddiv PInf NInf = NaN"
| "ddiv NInf PInf = NaN"
| "ddiv NInf NInf = NaN"

fun dle :: "double \<Rightarrow> double \<Rightarrow> bool" where
  "dle (Fin a) (Fin b) = (a \<le> b)"
| "dle NaN _ = False"
| "dle _ NaN = False"
| "dle NInf _ = True"
| "dle _ PInf = True"
| "dle PInf _ = False"
| "dle _ NInf = False"

fun dlt :: "double \<Rightarrow> double \<Rightarrow> bool" where
  "dlt (Fin a) (Fin b) = (a < b)"
| "dlt NaN _ = False"
| "dlt _ NaN = False"
| "dlt PInf _ = False"
| "dlt _ NInf = False"
| "dlt NInf _ = True"
| "dlt _ PInf = True"

fun fabs :: "double \<Rightarrow> double" where
  "fabs (Fin a) = Fin \<bar>a\<bar>"
| "fabs PInf = PInf"
| "fabs NInf = PInf"
| "fabs NaN = NaN"

fun dsqrt :: "double \<Rightarrow> double" where
  "dsqrt (Fin a) = (if a < 0 then NaN else Fin (sqrt a))"
| "dsqrt PInf = PInf"
| "dsqrt NInf = NaN"
| "dsqrt NaN = NaN"

text \<open>\<open>TickStruct\<close> as \<open>fill_tick_struct\<close> fills it.\<close>

record TickStruct =
  timestamp :: double
  bid :: double
  ask :: double
  mid :: double
  hour :: int
  minute :: int

section \<open>Time-weighted rolling window\<close>

definition EPS :: double where
  "EPS = Fin (1 / 10 ^ 12)"

definition MIN_DT :: double where
  "MIN_DT = Fin (1 / 10 ^ 9)"

text \<open>
  \<open>TimeRollingWindow\<close>: three parallel arrays used as a ring (\<open>head\<close>, \<open>size\<close>,
  \<open>capacity\<close>) and three running sums. The C \<open>int\<close> counters are natural numbers (a
  capacity of \<open>2^31\<close> entries is out of reach of memory).
\<close>

record TimeRollingWindow =
  w_lookback :: double
  w_capacity :: nat
  w_size :: nat
  w_head :: nat
  ts_view :: "double list"
  val_view :: "double list"
  dt_view :: "double list"
  sum_w :: double
  sum_x :: double
  sum_x2 :: double

text \<open>
  \<open>_ensure_capacity\<close>: the live entries are copied to the front of fresh arrays. The
  slots \<open>np.empty\<close> leaves uninitialised hold \<open>Fin 0\<close> here; they are written before
  they are read.
\<close>

definition grown_capacity :: "nat \<Rightarrow> nat \<Rightarrow> nat" where
  "grown_capacity capacity min_capacity =
     (let new_capacity = (if capacity > 0 then capacity * 2 else 16)
      in if new_capacity < min_capacity then min_capacity else new_capacity)"

definition ring_copy :: "'a \<Rightarrow> 'a list \<Rightarrow> nat \<Rightarrow> nat \<Rightarrow> nat \<Rightarrow> nat \<Rightarrow> 'a list" where
  "ring_copy filler view capacity head_ix live_size new_capacity =
     map (\<lambda>i. if capacity > 0 \<and> i < live_size then view ! ((head_ix + i) mod capacity)
              else filler)
       [0..<new_capacity]"

definition w_ensure_capacity :: "TimeRollingWindow \<Rightarrow> nat \<Rightarrow> TimeRollingWindow" where
  "w_ensure_capacity w min_capacity =
     (if w_capacity w \<ge> min_capacity then w
      else
        let new_capacity = grown_capacity (w_capacity w) min_capacity
        in w\<lparr>ts_view := ring_copy (Fin 0) (ts_view w) (w_capacity w) (w_head w) (w_size w) new_capacity,
             val_view := ring_copy (Fin 0) (val_view w) (w_capacity w) (w_head w) (w_size w) new_capacity,
             dt_view := ring_copy (Fin 0) (dt_view w) (w_capacity w) (w_head w) (w_size w) new_capacity,
             w_capacity := new_capacity,
             w_head := 0\<rparr>)"

text \<open>\<open>__cinit__\<close>.\<close>

definition TimeRollingWindow_init :: "double \<Rightarrow> TimeRollingWindow" where
  "TimeRollingWindow_init lookback_seconds =
     w_ensure_capacity
       \<lparr>w_lookback = lookback_seconds, w_capacity = 0, w_size = 0, w_head = 0,
        ts_view = [], val_view = [], dt_view = [],
        sum_w = Fin 0, sum_x = Fin 0, sum_x2 = Fin 0\<rparr> 16"

text \<open>One iteration of the \<open>while\<close> loop of \<open>_trim\<close>, by its three exits.\<close>

definition w_head_end :: "TimeRollingWindow \<Rightarrow> double" where
  "w_head_end w = dadd (ts_view w ! w_head w) (dt_view w ! w_head w)"

definition w_pop_head :: "TimeRollingWindow \<Rightarrow> TimeRollingWindow" where
  "w_pop_head w =
     (let old_val = val_view w ! w_head w; old_dt = dt_view w ! w_head w
      in w\<lparr>sum_w := dsub (sum_w w) old_dt,
           sum_x := dsub (sum_x w) (dmul old_dt old_val),
           sum_x2 := dsub (sum_x2 w) (dmul (dmul old_dt old_val) old_val),
           w_head := (w_head w + 1) mod w_capacity w,
           w_size := w_size w - 1\<rparr>)"

definition w_shorten_head :: "TimeRollingWindow \<Rightarrow> double \<Rightarrow> TimeRollingWindow" where
  "w_shorten_head w cutoff =
     (let old_ts = ts_view w ! w_head w; old_val = val_view w ! w_head w;
          old_dt = dt_view w ! w_head w;
          drop_dt = dsub cutoff old_ts;
          keep_dt = dsub old_dt drop_dt;
          (keep_dt, drop_dt) = (if dlt keep_dt (Fin 0) then (Fin 0, old_dt) else (keep_dt, drop_dt))
      in w\<lparr>sum_w := dsub (sum_w w) drop_dt,
           sum_x := dsub (sum_x w) (dmul drop_dt old_val),
           sum_x2 := dsub (sum_x2 w) (dmul (dmul drop_dt old_val) old_val),
           ts_view := (ts_view w)[w_head w := cutoff],
           dt_view := (dt_view w)[w_head w := keep_dt]\<rparr>)"

function w_trim_loop :: "TimeRollingWindow \<Rightarrow> double \<Rightarrow> TimeRollingWindow" where
  "w_trim_loop w cutoff =
     (if w_size w > 0 then
        if dle (w_head_end w) (dsub cutoff EPS) then w_trim_loop (w_pop_head w) cutoff
        else if dlt (ts_view w ! w_head w) cutoff \<and> dlt cutoff (w_head_end w)
          then w_shorten_head w cutoff
        else w
      else w)"
  by pat_completeness auto
termination
  by (relation "measure (\<lambda>(w, cutoff). w_size w)") (auto simp: w_pop_head_def Let_def)

declare w_trim_loop.simps [simp del]

text \<open>The clamp that ends \<open>_trim\<close>.\<close>

definition w_clamp :: "TimeRollingWindow \<Rightarrow> TimeRollingWindow" where
  "w_clamp w =
     (if dlt (fabs (sum_w w)) EPS then w\<lparr>sum_w := Fin 0, sum_x := Fin 0, sum_x2 := Fin 0\<rparr>
      else if dlt (sum_w w) (Fin 0) \<and> dlt (dneg EPS) (sum_w w) then w\<lparr>sum_w := Fin 0\<rparr>
      else w)"

definition w_trim :: "TimeRollingWindow \<Rightarrow> double \<Rightarrow> TimeRollingWindow" where
  "w_trim w ts =
     (let cutoff = dsub ts (w_lookback w)
      in if w_size w = 0 then w else w_clamp (w_trim_loop w cutoff))"

text \<open>\<open>TimeRollingWindow.append\<close>.\<close>

definition w_append :: "TimeRollingWindow \<Rightarrow> double \<Rightarrow> double \<Rightarrow> double \<Rightarrow> TimeRollingWindow" where
  "w_append w ts val dt =
     (if \<not> (isfinite ts \<and> isfinite val \<and> isfinite dt) then w
      else
        let dt = (if dle dt (Fin 0) then MIN_DT else dt);
            w = (if w_size w = w_capacity w then w_ensure_capacity w (w_capacity w + 1) else w);
            tail = (w_head w + w_size w) mod w_capacity w;
            w = w\<lparr>ts_view := (ts_view w)[tail := ts],
                  val_view := (val_view w)[tail := val],
                  dt_view := (dt_view w)[tail := dt],
                  w_size := w_size w + 1,
                  sum_w := dadd (sum_w w) dt,
                  sum_x := dadd (sum_x w) (dmul dt val),
                  sum_x2 := dadd (sum_x2 w) (dmul (dmul dt val) val)\<rparr>
        in w_trim w ts)"

text \<open>\<open>TimeRollingWindow.stats\<close>: the pair \<open>(mean, std)\<close>.\<close>

definition w_stats :: "TimeRollingWindow \<Rightarrow> double \<times> double" where
  "w_stats w =
     (if \<not> isfinite (sum_w w) \<or> dle (sum_w w) (Fin (1 / 10 ^ 12)) then (NaN, NaN)
      else if \<not> isfinite (sum_x w) \<or> \<not> isfinite (sum_x2 w) then (NaN, NaN)
      else
        let mean = ddiv (sum_x w) (sum_w w);
            raw = dsub (ddiv (sum_x2 w) (sum_w w)) (dmul mean mean)
        in if \<not> isfinite raw then (mean, NaN)
           else let var = (if dlt (Fin 0) raw then raw else Fin 0) in (mean, dsqrt var))"

section \<open>Session metric\<close>

text \<open>The body of the loop of \<open>_build_table\<close>: the label of one minute of the day.\<close>

definition table_entry :: "nat \<Rightarrow> string" where
  "table_entry minute_of_day =
     (let h = minute_of_day div 60 in
      if h \<ge> 22 \<or> h < 7 then ''Asia''
      else if 7 \<le> h \<and> h < 12 then ''London''
      else if 12 \<le> h \<and> h < 16 then ''London_New_York_Overlap''
      else if 16 \<le> h \<and> h < 21 then ''New_York''
      else ''Other'')"

definition build_table :: "string list" where
  "build_table = map table_entry [0..<1440]"

definition SESSION_TABLE :: "string list" where
  "SESSION_TABLE = build_table"

record SessionMetric =
  sm_name :: string
  session :: string

definition SessionMetric_init :: "string \<Rightarrow> SessionMetric" where
  "SessionMetric_init nm = \<lparr>sm_name = nm, session = ''Other''\<rparr>"

text \<open>
  \<open>SessionMetric.update_from_struct\<close>. The index is a C \<open>int\<close>; for hours and minutes of
  a day the product and sum are far from its bounds, so it is an \<open>int\<close> here.
\<close>

definition SessionMetric_update_from_struct :: "SessionMetric \<Rightarrow> TickStruct \<Rightarrow> SessionMetric" where
  "SessionMetric_update_from_struct m tick =
     (let idx = hour tick * 60 + minute tick;
          idx = (if idx < 0 then 0 else if idx \<ge> 1440 then 1439 else idx)
      in m\<lparr>session := SESSION_TABLE ! nat idx\<rparr>)"

text \<open>
  The table as the specification words it, by wall-clock ranges \<open>hh:mm\<close>:
  22:00--06:59 Asia; 07:00--11:59 London; 12:00--15:59 Overlap; 16:00--20:59 New York;
  21:00--21:59 Other.
\<close>

definition hhmm :: "int \<Rightarrow> int \<Rightarrow> int" where
  "hhmm h m = h * 60 + m"

definition spec_session_label :: "int \<Rightarrow> int \<Rightarrow> string" where
  "spec_session_label h m =
     (let c = hhmm h m in
      if hhmm 22 0 \<le> c \<or> c \<le> hhmm 6 59 then ''Asia''
      else if hhmm 7 0 \<le> c \<and> c \<le> hhmm 11 59 then ''London''
      else if hhmm 12 0 \<le> c \<and> c \<le> hhmm 15 59 then ''London_New_York_Overlap''
      else if hhmm 16 0 \<le> c \<and> c \<le> hhmm 20 59 then ''New_York''
      else ''Other'')"

text \<open>A tick at a given wall-clock hour and minute, for the concrete scenarios.\<close>

definition tick_at :: "int \<Rightarrow> int \<Rightarrow> TickStruct" where
  "tick_at h m = \<lparr>timestamp = Fin (real_of_int (h * 3600 + m * 60)), bid = Fin 1, ask = Fin 1,
     mid = Fin 1, hour = h, minute = m\<rparr>"

section \<open>Ring buffers, read as lists\<close>

text \<open>
  The live part of a ring: \<open>n\<close> slots from \<open>head_ix\<close> on, wrapping at \<open>capacity\<close>, oldest
  first.
\<close>

definition ring_live :: "'a list \<Rightarrow> nat \<Rightarrow> nat \<Rightarrow> nat \<Rightarrow> 'a list" where
  "ring_live view capacity head_ix n = map (\<lambda>i. view ! ((head_ix + i) mod capacity)) [0..<n]"

section \<open>Z-score metric\<close>

text \<open>The exceptions the constructors raise.\<close>

datatype error = TypeError | ValueError | AssertionError

record ZScoreMetric =
  z_name :: string
  z_window :: TimeRollingWindow
  z_z :: double
  z_resid :: double
  z_last_ts :: double
  z_has_last :: bool

text \<open>
  \<open>ZScoreMetric.__init__\<close>. The \<open>isinstance\<close> check is the type of \<open>lookback_seconds\<close>
  here; \<open>ZScoreMetric_fresh\<close> is the object a successful call leaves.
\<close>

definition ZScoreMetric_fresh :: "string \<Rightarrow> double \<Rightarrow> ZScoreMetric" where
  "ZScoreMetric_fresh nm lookback_seconds =
     \<lparr>z_name = nm, z_window = TimeRollingWindow_init lookback_seconds,
      z_z = NaN, z_resid = NaN, z_last_ts = Fin 0, z_has_last = False\<rparr>"

definition ZScoreMetric_init :: "string \<Rightarrow> double \<Rightarrow> error + ZScoreMetric" where
  "ZScoreMetric_init nm lookback_seconds =
     (if dle lookback_seconds (Fin 0) then Inl ValueError
      else Inr (ZScoreMetric_fresh nm lookback_seconds))"

text \<open>\<open>ZScoreMetric.update_from_struct\<close>.\<close>

definition ZScoreMetric_update_from_struct :: "ZScoreMetric \<Rightarrow> TickStruct \<Rightarrow> ZScoreMetric" where
  "ZScoreMetric_update_from_struct m tick =
     (let t = timestamp tick;
          mid = mid tick;
          dt = (if z_has_last m
                then (let dt = dsub t (z_last_ts m)
                      in if dlt dt (Fin (1 / 10 ^ 6)) then Fin (1 / 10 ^ 6) else dt)
                else Fin 0);
          m = m\<lparr>z_has_last := True\<rparr>;
          m = m\<lparr>z_window := w_append (z_window m) t mid dt\<rparr>;
          mean_std = w_stats (z_window m);
          mean = fst mean_std;
          std = snd mean_std;
          m = (if \<not> isfinite mean then m\<lparr>z_resid := NaN\<rparr>
               else m\<lparr>z_resid := dsub mid mean\<rparr>);
          m = (if \<not> isfinite std \<or> dle std (Fin (1 / 10 ^ 12)) then m\<lparr>z_z := Fin 0\<rparr>
               else m\<lparr>z_z := ddiv (dsub mid mean) std\<rparr>)
      in m\<lparr>z_last_ts := t\<rparr>)"

text \<open>A tick whose prices are missing: every price field is \<open>NaN\<close>.\<close>

definition nan_tick :: TickStruct where
  "nan_tick = \<lparr>timestamp = Fin 0, bid = NaN, ask = NaN, mid = NaN, hour = 0, minute = 0\<rparr>"

section \<open>Spread metric\<close>

record SpreadMetric =
  sp_name :: string
  sp_pip_size :: double
  sp_window :: double
  sp_spread :: double
  sp_spread_pips :: double
  sp_percentile :: double
  sp_history :: "(double \<times> double) list"

definition SpreadMetric_fresh :: "string \<Rightarrow> double \<Rightarrow> double \<Rightarrow> SpreadMetric" where
  "SpreadMetric_fresh nm pip_size window_seconds =
     \<lparr>sp_name = nm, sp_pip_size = pip_size, sp_window = window_seconds,
      sp_spread = NaN, sp_spread_pips = NaN, sp_percentile = NaN, sp_history = []\<rparr>"

definition SpreadMetric_init :: "string \<Rightarrow> double \<Rightarrow> double \<Rightarrow> error + SpreadMetric" where
  "SpreadMetric_init nm pip_size window_seconds =
     (if dle pip_size (Fin 0) then Inl ValueError
      else if dle window_seconds (Fin 0) then Inl ValueError
      else Inr (SpreadMetric_fresh nm pip_size window_seconds))"




text \<open>A tick with finite prices.\<close>

definition quote_tick :: "real \<Rightarrow> real \<Rightarrow> real \<Rightarrow> TickStruct" where
  "quote_tick t b a = \<lparr>timestamp = Fin t, bid = Fin b, ask = Fin a, mid = Fin ((b + a) / 2),
     hour = 0, minute = 0\<rparr>"

section \<open>Monotonic queue\<close>

text \<open>
  \<open>_MonotonicQueue\<close>: two parallel arrays used as a ring. Entries are held oldest first;
  \<open>append\<close> drops from the tail, \<open>trim\<close> from the head.
\<close>

record MonotonicQueue =
  times_view :: "double list"
  prices_view :: "double list"
  q_capacity :: nat
  q_size :: nat
  q_head :: nat
  is_max :: bool

definition q_ensure_capacity :: "MonotonicQueue \<Rightarrow> nat \<Rightarrow> MonotonicQueue" where
  "q_ensure_capacity q min_capacity =
     (if q_capacity q \<ge> min_capacity then q
      else
        let new_capacity = grown_capacity (q_capacity q) min_capacity
        in q\<lparr>times_view := ring_copy (Fin 0) (times_view q) (q_capacity q) (q_head q) (q_size q) new_capacity,
             prices_view := ring_copy (Fin 0) (prices_view q) (q_capacity q) (q_head q) (q_size q) new_capacity,
             q_capacity := new_capacity,
             q_head := 0\<rparr>)"

text \<open>\<open>__cinit__\<close>; the initial capacity is a C \<open>int\<close>.\<close>

definition MonotonicQueue_init :: "int \<Rightarrow> bool \<Rightarrow> MonotonicQueue" where
  "MonotonicQueue_init initial_capacity is_max_flag =
     q_ensure_capacity
       \<lparr>times_view = [], prices_view = [], q_capacity = 0, q_size = 0, q_head = 0,
        is_max = is_max_flag\<rparr>
       (if initial_capacity > 0 then nat initial_capacity else 16)"

text \<open>
  The first loop of \<open>append\<close>: drop tail entries the new price dominates, those at or
  below it in a max queue, at or above it in a min queue.
\<close>

definition q_tail_dominated :: "MonotonicQueue \<Rightarrow> double \<Rightarrow> bool" where
  "q_tail_dominated q price =
     (let idx = (q_head q + q_size q - 1) mod q_capacity q
      in if is_max q then dle (prices_view q ! idx) price
         else dle price (prices_view q ! idx))"

function q_pop_tail :: "MonotonicQueue \<Rightarrow> double \<Rightarrow> MonotonicQueue" where
  "q_pop_tail q price =
     (if q_size q > 0 then
        if q_tail_dominated q price then q_pop_tail (q\<lparr>q_size := q_size q - 1\<rparr>) price
        else q
      else q)"
  by pat_completeness auto
termination
  by (relation "measure (\<lambda>(q, price). q_size q)") auto

declare q_pop_tail.simps [simp del]

text \<open>\<open>_MonotonicQueue.append\<close>.\<close>

definition q_append :: "MonotonicQueue \<Rightarrow> double \<Rightarrow> double \<Rightarrow> MonotonicQueue" where
  "q_append q ts price =
     (let q = q_pop_tail q price;
          q = (if q_size q = q_capacity q then q_ensure_capacity q (q_capacity q + 1) else q);
          idx = (q_head q + q_size q) mod q_capacity q
      in q\<lparr>prices_view := (prices_view q)[idx := price],
           times_view := (times_view q)[idx := ts],
           q_size := q_size q + 1\<rparr>)"

text \<open>\<open>_MonotonicQueue.trim\<close>.\<close>

function q_trim_loop :: "MonotonicQueue \<Rightarrow> double \<Rightarrow> MonotonicQueue" where
  "q_trim_loop q cutoff =
     (if q_size q > 0 then
        if dlt (times_view q ! q_head q) cutoff
        then q_trim_loop (q\<lparr>q_head := (q_head q + 1) mod q_capacity q, q_size := q_size q - 1\<rparr>) cutoff
        else q
      else q)"
  by pat_completeness auto
termination
  by (relation "measure (\<lambda>(q, cutoff). q_size q)") auto

declare q_trim_loop.simps [simp del]

definition q_trim :: "MonotonicQueue \<Rightarrow> double \<Rightarrow> MonotonicQueue" where
  "q_trim q cutoff =
     (let q = q_trim_loop q cutoff
      in if q_size q = 0 then q\<lparr>q_head := 0\<rparr> else q)"

text \<open>
  \<open>find_candidate\<close>: scan from the entry before the tail towards the head for the first
  price far enough from the current one and old enough. The result is \<open>None\<close> for
  \<open>False\<close> and the pair \<open>(ts_out, price_out)\<close> for \<open>True\<close>. The index steps back by
  \<open>(idx - 1 + capacity) % capacity\<close>, which never leaves the naturals.
\<close>

fun q_scan :: "MonotonicQueue \<Rightarrow> double \<Rightarrow> double \<Rightarrow> bool \<Rightarrow> double \<Rightarrow> double \<Rightarrow> nat \<Rightarrow> nat
    \<Rightarrow> (double \<times> double) option" where
  "q_scan q current_price threshold is_low current_timestamp min_age idx 0 = None"
| "q_scan q current_price threshold is_low current_timestamp min_age idx (Suc remaining) =
     (let price = prices_view q ! idx;
          diff = (if is_low then dsub current_price price else dsub price current_price)
      in if dle threshold diff \<and> dle min_age (dsub current_timestamp (times_view q ! idx))
         then Some (times_view q ! idx, price)
         else q_scan q current_price threshold is_low current_timestamp min_age
                ((idx + q_capacity q - 1) mod q_capacity q) remaining)"

definition find_candidate :: "MonotonicQueue \<Rightarrow> double \<Rightarrow> double \<Rightarrow> bool \<Rightarrow> double \<Rightarrow> double
    \<Rightarrow> (double \<times> double) option" where
  "find_candidate q current_price threshold is_low current_timestamp min_age =
     (if q_size q < 2 then None
      else
        let idx = (q_head q + q_size q - 1) mod q_capacity q;
            idx = (idx + q_capacity q - 1) mod q_capacity q
        in q_scan q current_price threshold is_low current_timestamp min_age idx (q_size q - 1))"

text \<open>The live entries of a queue, oldest first, and the shape it has from \<open>__cinit__\<close> on.\<close>

definition q_entries :: "MonotonicQueue \<Rightarrow> (double \<times> double) list" where
  "q_entries q =
     zip (ring_live (times_view q) (q_capacity q) (q_head q) (q_size q))
         (ring_live (prices_view q) (q_capacity q) (q_head q) (q_size q))"

definition q_ok :: "MonotonicQueue \<Rightarrow> bool" where
  "q_ok q \<longleftrightarrow>
     0 < q_capacity q \<and> q_size q \<le> q_capacity q \<and> q_head q < q_capacity q \<and>
     length (times_view q) = q_capacity q \<and> length (prices_view q) = q_capacity q"

text \<open>A run of calls on one queue, with finite arguments.\<close>

datatype q_op = Append real real | Trim real

fun q_apply :: "MonotonicQueue \<Rightarrow> q_op \<Rightarrow> MonotonicQueue" where
  "q_apply q (Append t p) = q_append q (Fin t) (Fin p)"
| "q_apply q (Trim c) = q_trim q (Fin c)"

definition q_run :: "MonotonicQueue \<Rightarrow> q_op list \<Rightarrow> MonotonicQueue" where
  "q_run q ops = foldl q_apply q ops"

text \<open>
  What the claim about the head speaks of: the entries appended so far, the latest
  appended timestamp \<open>now\<close>, the largest cutoff trimmed so far, and the prices appended
  with a timestamp in \<open>[cutoff, now]\<close>.
\<close>

fun appended :: "q_op list \<Rightarrow> (real \<times> real) list" where
  "appended [] = []"
| "appended (Append t p # ops) = (t, p) # appended ops"
| "appended (Trim c # ops) = appended ops"

definition now_of :: "q_op list \<Rightarrow> real option" where
  "now_of ops = (if appended ops = [] then None else Some (fst (last (appended ops))))"

fun cutoffs :: "q_op list \<Rightarrow> real list" where
  "cutoffs [] = []"
| "cutoffs (Append t p # ops) = cutoffs ops"
| "cutoffs (Trim c # ops) = c # cutoffs ops"

definition in_window :: "q_op list \<Rightarrow> real \<Rightarrow> bool" where
  "in_window ops t \<longleftrightarrow>
     list_all (\<lambda>c. c \<le> t) (cutoffs ops) \<and> (case now_of ops of None \<Rightarrow> False | Some n \<Rightarrow> t \<le> n)"

definition window_prices :: "q_op list \<Rightarrow> real list" where
  "window_prices ops = map snd (filter (\<lambda>e. in_window ops (fst e)) (appended ops))"

text \<open>
  The calls the claim admits: timestamps of appends do not decrease, and a trim comes
  after an append, with a cutoff at most the latest appended timestamp.
\<close>

fun ops_ok_from :: "real option \<Rightarrow> q_op list \<Rightarrow> bool" where
  "ops_ok_from latest [] = True"
| "ops_ok_from latest (Append t p # ops) =
     ((case latest of None \<Rightarrow> True | Some l \<Rightarrow> l \<le> t) \<and> ops_ok_from (Some t) ops)"
| "ops_ok_from latest (Trim c # ops) =
     ((case latest of None \<Rightarrow> False | Some l \<Rightarrow> c \<le> l) \<and> ops_ok_from latest ops)"

definition ops_ok :: "q_op list \<Rightarrow> bool" where
  "ops_ok ops = ops_ok_from None ops"

text \<open>The extremum a queue keeps at its head.\<close>

definition extremum :: "bool \<Rightarrow> real list \<Rightarrow> real" where
  "extremum max_flag ps = (if max_flag then Max (set ps) else Min (set ps))"

definition head_price :: "MonotonicQueue \<Rightarrow> double" where
  "head_price q = prices_view q ! q_head q"

text \<open>
  The same calls on a plain list of finite entries, oldest first: what the ring holds
  after each call, as the proofs below show.
\<close>

definition dominated :: "bool \<Rightarrow> real \<Rightarrow> real \<Rightarrow> bool" where
  "dominated max_flag old new = (if max_flag then old \<le> new else new \<le> old)"

definition a_pop_tail :: "bool \<Rightarrow> (real \<times> real) list \<Rightarrow> real \<Rightarrow> (real \<times> real) list" where
  "a_pop_tail max_flag es p = rev (dropWhile (\<lambda>e. dominated max_flag (snd e) p) (rev es))"

fun a_apply :: "bool \<Rightarrow> (real \<times> real) list \<Rightarrow> q_op \<Rightarrow> (real \<times> real) list" where
  "a_apply max_flag es (Append t p) = a_pop_tail max_flag es p @ [(t, p)]"
| "a_apply max_flag es (Trim c) = dropWhile (\<lambda>e. fst e < c) es"

definition a_run :: "bool \<Rightarrow> q_op list \<Rightarrow> (real \<times> real) list" where
  "a_run max_flag ops = foldl (a_apply max_flag) [] ops"

definition q_holds :: "MonotonicQueue \<Rightarrow> (real \<times> real) list \<Rightarrow> bool" where
  "q_holds q es \<longleftrightarrow> q_ok q \<and> q_entries q = map (\<lambda>e. (Fin (fst e), Fin (snd e))) es"

text \<open>
  What the list holds after a run of admitted calls: timestamps in order, each price
  dominating the later ones, every entry an appended one inside the window, and every
  appended entry inside the window dominated by a later entry that is still held.
\<close>

definition a_inv :: "bool \<Rightarrow> q_op list \<Rightarrow> (real \<times> real) list \<Rightarrow> bool" where
  "a_inv max_flag ops es \<longleftrightarrow>
     sorted (map fst (appended ops)) \<and>
     (\<forall>c\<in>set (cutoffs ops). appended ops \<noteq> [] \<and> c \<le> fst (last (appended ops))) \<and>
     sorted (map fst es) \<and>
     sorted_wrt (\<lambda>a b. dominated max_flag (snd b) (snd a)) es \<and>
     (\<forall>e\<in>set es. e \<in> set (appended ops) \<and> (\<forall>c\<in>set (cutoffs ops). c \<le> fst e)) \<and>
     (\<forall>e\<in>set (appended ops). (\<forall>c\<in>set (cutoffs ops). c \<le> fst e) \<longrightarrow>
        (\<exists>e'\<in>set es. fst e \<le> fst e' \<and> dominated max_flag (snd e) (snd e'))) \<and>
     (appended ops \<noteq> [] \<longrightarrow> es \<noteq> [] \<and> last es = last (appended ops))"

section \<open>Threshold-reversion metric\<close>

record ThresholdReversionMetric =
  tr_name :: string
  lookback_seconds :: int
  threshold :: double
  pip_size :: double
  tp_distance :: double
  sl_distance :: double
  tp_price :: double
  sl_price :: double
  min_recency :: double
  trade_timeout :: double
  max_q :: MonotonicQueue
  min_q :: MonotonicQueue
  p_ref :: double
  p_ref_time :: double
  position_open_time :: double
  last_mid :: double
  last_timestamp :: double
  has_ref :: bool
  has_last :: bool
  position :: int

text \<open>\<open>ThresholdReversionMetric.__init__\<close>; \<open>trade_timeout_seconds\<close> may be \<open>None\<close>.\<close>

definition ThresholdReversionMetric_init ::
    "string \<Rightarrow> int \<Rightarrow> double \<Rightarrow> double \<Rightarrow> double \<Rightarrow> double \<Rightarrow> double \<Rightarrow> double option
      \<Rightarrow> ThresholdReversionMetric" where
  "ThresholdReversionMetric_init nm lookback threshold_pips pip tp_pips sl_pips
       min_recency_seconds trade_timeout_seconds =
     \<lparr>tr_name = nm,
      lookback_seconds = lookback,
      threshold = dmul threshold_pips pip,
      pip_size = pip,
      tp_distance = dmul tp_pips pip,
      sl_distance = dmul sl_pips pip,
      tp_price = NaN,
      sl_price = NaN,
      min_recency = min_recency_seconds,
      trade_timeout = (case trade_timeout_seconds of None \<Rightarrow> NaN | Some s \<Rightarrow> s),
      max_q = MonotonicQueue_init 64 True,
      min_q = MonotonicQueue_init 64 False,
      p_ref = NaN,
      p_ref_time = NaN,
      position_open_time = NaN,
      last_mid = NaN,
      last_timestamp = NaN,
      has_ref = False,
      has_last = False,
      position = 0\<rparr>"

text \<open>\<open>_append_tick\<close>.\<close>

definition tr_append_tick :: "ThresholdReversionMetric \<Rightarrow> double \<Rightarrow> double \<Rightarrow> ThresholdReversionMetric" where
  "tr_append_tick m ts mid_price =
     (let cutoff = dsub ts (Fin (real_of_int (lookback_seconds m)));
          m = m\<lparr>max_q := q_append (max_q m) ts mid_price\<rparr>;
          m = m\<lparr>min_q := q_append (min_q m) ts mid_price\<rparr>;
          m = m\<lparr>max_q := q_trim (max_q m) cutoff\<rparr>
      in m\<lparr>min_q := q_trim (min_q m) cutoff\<rparr>)"

text \<open>\<open>_find_reference\<close>: \<open>None\<close> for \<open>False\<close>, the pair \<open>(out_time, out_price)\<close> for \<open>True\<close>.\<close>

definition tr_find_reference :: "ThresholdReversionMetric \<Rightarrow> double \<Rightarrow> double \<Rightarrow> (double \<times> double) option" where
  "tr_find_reference m current_price current_time =
     (let low = find_candidate (min_q m) current_price (threshold m) True current_time (min_recency m);
          high = find_candidate (max_q m) current_price (threshold m) False current_time (min_recency m)
      in case (low, high) of
           (Some (low_time, low_price), Some (high_time, high_price)) \<Rightarrow>
             (if dle high_time low_time then Some (low_time, low_price)
              else Some (high_time, high_price))
         | (Some (low_time, low_price), None) \<Rightarrow> Some (low_time, low_price)
         | (None, Some (high_time, high_price)) \<Rightarrow> Some (high_time, high_price)
         | (None, None) \<Rightarrow> None)"

text \<open>\<open>_flatten\<close>, \<open>_set_reference\<close>, \<open>_set_trade_levels\<close> and \<open>_maybe_open\<close>.\<close>

definition tr_flatten :: "ThresholdReversionMetric \<Rightarrow> ThresholdReversionMetric" where
  "tr_flatten m =
     m\<lparr>position := 0, has_ref := False, p_ref := NaN, p_ref_time := NaN,
       position_open_time := NaN, tp_price := NaN, sl_price := NaN\<rparr>"

definition tr_set_reference :: "ThresholdReversionMetric \<Rightarrow> double \<Rightarrow> double \<Rightarrow> ThresholdReversionMetric" where
  "tr_set_reference m price ts = m\<lparr>p_ref := price, p_ref_time := ts, has_ref := True\<rparr>"

definition tr_set_trade_levels :: "ThresholdReversionMetric \<Rightarrow> double \<Rightarrow> int \<Rightarrow> ThresholdReversionMetric" where
  "tr_set_trade_levels m current_price direction =
     (if direction = - 1
      then m\<lparr>tp_price := dsub current_price (tp_distance m),
             sl_price := dadd current_price (sl_distance m)\<rparr>
      else m\<lparr>tp_price := dadd current_price (tp_distance m),
             sl_price := dsub current_price (sl_distance m)\<rparr>)"

definition tr_maybe_open :: "ThresholdReversionMetric \<Rightarrow> double \<Rightarrow> double \<Rightarrow> double \<Rightarrow> double
    \<Rightarrow> ThresholdReversionMetric" where
  "tr_maybe_open m ref_price ref_time current_price now =
     (let distance = dsub current_price ref_price
      in if dle (threshold m) distance then
           (let m = tr_set_reference m ref_price ref_time;
                m = m\<lparr>position := - 1\<rparr>;
                m = m\<lparr>position_open_time := now\<rparr>
            in tr_set_trade_levels m current_price (- 1))
         else if dle distance (dneg (threshold m)) then
           (let m = tr_set_reference m ref_price ref_time;
                m = m\<lparr>position := 1\<rparr>;
                m = m\<lparr>position_open_time := now\<rparr>
            in tr_set_trade_levels m current_price 1)
         else m)"

text \<open>
  \<open>update_from_struct\<close>, in the three stretches of its body: the tick is taken in
  (\<open>tr_observe\<close>); the position is settled against the candidate reference, up to the
  last \<open>_flatten\<close> (\<open>tr_settle\<close>, which hands on the candidate, or \<open>None\<close> where the
  method has returned); a flat metric with a candidate opens (\<open>tr_update_from_struct\<close>).
\<close>

definition tr_observe :: "ThresholdReversionMetric \<Rightarrow> TickStruct \<Rightarrow> ThresholdReversionMetric" where
  "tr_observe m tick =
     (let m = tr_append_tick m (timestamp tick) (mid tick)
      in m\<lparr>last_mid := mid tick, last_timestamp := timestamp tick, has_last := True\<rparr>)"

definition tr_settle :: "ThresholdReversionMetric \<Rightarrow> TickStruct
    \<Rightarrow> ThresholdReversionMetric \<times> (double \<times> double) option" where
  "tr_settle m tick =
     (let m = tr_observe m tick;
          has_ref_candidate = tr_find_reference m (mid tick) (timestamp tick);
          (m, has_ref_candidate) =
            (if position m \<noteq> 0 \<and> has_ref m then
               if dle (fabs (dsub (mid tick) (p_ref m))) (pip_size m)
               then (tr_flatten m, tr_find_reference (tr_flatten m) (mid tick) (timestamp tick))
               else (m, has_ref_candidate)
             else (m, has_ref_candidate))
      in case has_ref_candidate of
           None \<Rightarrow> (tr_flatten m, None)
         | Some (ref_time, ref_price) \<Rightarrow>
             (if has_ref m \<and> dlt (ddiv (pip_size m) (Fin 10)) (fabs (dsub ref_price (p_ref m)))
              then (tr_flatten m, Some (ref_time, ref_price))
              else (m, Some (ref_time, ref_price))))"

definition tr_update_from_struct :: "ThresholdReversionMetric \<Rightarrow> TickStruct \<Rightarrow> ThresholdReversionMetric" where
  "tr_update_from_struct m tick =
     (case tr_settle m tick of
        (m, None) \<Rightarrow> m
      | (m, Some (ref_time, ref_price)) \<Rightarrow>
          (if position m = 0 then tr_maybe_open m ref_price ref_time (mid tick) (timestamp tick)
           else m))"

text \<open>A run of ticks, each given by its timestamp and mid price.\<close>

definition mid_tick :: "real \<times> real \<Rightarrow> TickStruct" where
  "mid_tick tm = quote_tick (fst tm) (snd tm) (snd tm)"

definition tr_feed :: "ThresholdReversionMetric \<Rightarrow> (real \<times> real) list \<Rightarrow> ThresholdReversionMetric" where
  "tr_feed m tms = foldl (\<lambda>m tm. tr_update_from_struct m (mid_tick tm)) m tms"

text \<open>\<open>find_candidate\<close> on the list of finite entries a queue holds.\<close>

definition a_far_and_old :: "real \<Rightarrow> real \<Rightarrow> bool \<Rightarrow> real \<Rightarrow> real \<Rightarrow> real \<times> real \<Rightarrow> bool" where
  "a_far_and_old cur thr is_low now age e \<longleftrightarrow>
     thr \<le> (if is_low then cur - snd e else snd e - cur) \<and> age \<le> now - fst e"

definition a_find :: "real \<Rightarrow> real \<Rightarrow> bool \<Rightarrow> real \<Rightarrow> real \<Rightarrow> (real \<times> real) list \<Rightarrow> (real \<times> real) option" where
  "a_find cur thr is_low now age es = find (a_far_and_old cur thr is_low now age) (rev (butlast es))"

definition fin_pair :: "real \<times> real \<Rightarrow> double \<times> double" where
  "fin_pair e = (Fin (fst e), Fin (snd e))"

text \<open>The two queues of a metric, read as lists, and the reference search on them.\<close>

definition tr_holds :: "ThresholdReversionMetric \<Rightarrow> (real \<times> real) list \<Rightarrow> (real \<times> real) list \<Rightarrow> bool" where
  "tr_holds m highs lows \<longleftrightarrow>
     q_holds (max_q m) highs \<and> q_holds (min_q m) lows \<and> is_max (max_q m) \<and> \<not> is_max (min_q m)"

definition a_tick :: "bool \<Rightarrow> real \<Rightarrow> real \<Rightarrow> real \<Rightarrow> (real \<times> real) list \<Rightarrow> (real \<times> real) list" where
  "a_tick max_flag lookback t p es =
     a_apply max_flag (a_apply max_flag es (Append t p)) (Trim (t - lookback))"

definition a_reference :: "real \<Rightarrow> real \<Rightarrow> real \<Rightarrow> real \<Rightarrow> (real \<times> real) list \<Rightarrow> (real \<times> real) list
    \<Rightarrow> (real \<times> real) option" where
  "a_reference cur thr now age highs lows =
     (case (a_find cur thr True now age lows, a_find cur thr False now age highs) of
        (Some l, Some h) \<Rightarrow> (if fst h \<le> fst l then Some l else Some h)
      | (Some l, None) \<Rightarrow> Some l
      | (None, Some h) \<Rightarrow> Some h
      | (None, None) \<Rightarrow> None)"

text \<open>
  A metric in the pattern of scenario S4 of the specification, with numbers that binary
  floating point holds exactly: a pip of 1/16; threshold, take-profit and stop-loss of
  4 pips, that is 1/4; no minimum recency; a lookback of 60 seconds.
\<close>

definition reversion_quarter :: ThresholdReversionMetric where
  "reversion_quarter =
     ThresholdReversionMetric_init ''reversion'' 60 (Fin 4) (Fin (1 / 16)) (Fin 4) (Fin 4)
       (Fin 0) None"

definition config_quarter :: "ThresholdReversionMetric \<Rightarrow> bool" where
  "config_quarter m \<longleftrightarrow>
     threshold m = Fin (1 / 4) \<and> pip_size m = Fin (1 / 16) \<and>
     tp_distance m = Fin (1 / 4) \<and> sl_distance m = Fin (1 / 4) \<and>
     min_recency m = Fin 0 \<and> lookback_seconds m = 60"

text \<open>
  A metric constructed with \<open>threshold_pips = -1\<close> and a pip of 1, which \<open>__init__\<close>
  accepts: its threshold is \<open>-1\<close>.
\<close>

definition reversion_negative :: ThresholdReversionMetric where
  "reversion_negative =
     ThresholdReversionMetric_init ''reversion'' 60 (Fin (- 1)) (Fin 1) (Fin 1) (Fin 1)
       (Fin 0) None"

definition config_negative :: "ThresholdReversionMetric \<Rightarrow> bool" where
  "config_negative m \<longleftrightarrow>
     threshold m = Fin (- 1) \<and> pip_size m = Fin 1 \<and>
     tp_distance m = Fin 1 \<and> sl_distance m = Fin 1 \<and>
     min_recency m = Fin 0 \<and> lookback_seconds m = 60"

section \<open>Metrics manager\<close>

text \<open>
  A Python \<open>dict\<close> keeps its keys in insertion order: an assignment to a key already
  present replaces the value in place, a new key goes to the end, \<open>pop(key, None)\<close>
  removes the key when present, and \<open>get(key)\<close> is \<open>None\<close> for a missing key.
\<close>

fun dict_set :: "('k \<times> 'v) list \<Rightarrow> 'k \<Rightarrow> 'v \<Rightarrow> ('k \<times> 'v) list" where
  "dict_set [] k v = [(k, v)]"
| "dict_set (e # d) k v = (if fst e = k then (k, v) # d else e # dict_set d k v)"

definition dict_pop :: "('k \<times> 'v) list \<Rightarrow> 'k \<Rightarrow> ('k \<times> 'v) list" where
  "dict_pop d k = filter (\<lambda>e. fst e \<noteq> k) d"

definition dict_get :: "('k \<times> 'v) list \<Rightarrow> 'k \<Rightarrow> 'v option" where
  "dict_get d k = map_of d k"

text \<open>
  A metric object as the manager uses it: its \<open>name\<close>, its state, the state change of
  \<open>update_from_struct\<close> (or of \<open>update\<close>, for an object that is no \<open>BaseMetric\<close>), and
  \<open>value()\<close> read from the state.
\<close>

record ('s, 'v) metric =
  m_name :: string
  m_state :: 's
  m_update :: "'s \<Rightarrow> TickStruct \<Rightarrow> 's"
  m_value :: "'s \<Rightarrow> (string \<times> 'v) list"

definition metric_update :: "('s, 'v) metric \<Rightarrow> TickStruct \<Rightarrow> ('s, 'v) metric" where
  "metric_update m tick = m\<lparr>m_state := m_update m (m_state m) tick\<rparr>"

record ('s, 'v) MetricsManager =
  metrics :: "('s, 'v) metric list"
  key_cache :: "string list list"
  full_key_cache :: "string list list"
  snapshot :: "(string \<times> 'v option) list"

definition MetricsManager_init :: "('s, 'v) metric list \<Rightarrow> ('s, 'v) MetricsManager" where
  "MetricsManager_init ms =
     \<lparr>metrics = ms, key_cache = replicate (length ms) [],
      full_key_cache = replicate (length ms) [], snapshot = []\<rparr>"

text \<open>The comparison of the keys of \<open>values\<close> with the cached tuple, position by position.\<close>

fun keys_differ :: "string list \<Rightarrow> string list \<Rightarrow> bool" where
  "keys_differ (key # rest) (cached # keys) = (if key = cached then keys_differ rest keys else True)"
| "keys_differ _ _ = False"

definition needs_refresh :: "string list \<Rightarrow> (string \<times> 'v) list \<Rightarrow> bool" where
  "needs_refresh keys values =
     (if keys = [] \<or> length values \<noteq> length keys then True
      else keys_differ (map fst values) keys)"

definition write_values ::
  "('s, 'v) MetricsManager \<Rightarrow> string list \<Rightarrow> string list \<Rightarrow> (string \<times> 'v) list \<Rightarrow> ('s, 'v) MetricsManager" where
  "write_values mgr keys full_keys values =
     mgr\<lparr>snapshot := foldl (\<lambda>d (key, full_key). dict_set d full_key (dict_get values key))
                        (snapshot mgr) (zip keys full_keys)\<rparr>"

text \<open>
  One pass of the loop body of \<open>update_all\<close>, for the metric at index \<open>i\<close>. The obsolete
  full keys are the elements of a Python \<open>set\<close>, which are iterated in an order that the
  language leaves open and that differs between processes for strings; \<open>order\<close> is that
  order, as a function from a listing of the set to the sequence the loop sees.
\<close>

definition update_metric ::
  "(string list \<Rightarrow> string list) \<Rightarrow> TickStruct \<Rightarrow> ('s, 'v) MetricsManager \<Rightarrow> nat \<Rightarrow> ('s, 'v) MetricsManager" where
  "update_metric order tick mgr i =
     (let metric_obj = metric_update (metrics mgr ! i) tick;
          mgr = mgr\<lparr>metrics := (metrics mgr)[i := metric_obj]\<rparr>;
          values = m_value metric_obj (m_state metric_obj);
          metric_name = m_name metric_obj;
          keys = key_cache mgr ! i;
          full_keys = full_key_cache mgr ! i
      in if needs_refresh keys values then
           (let old_full_keys = remdups full_keys;
                keys = map fst values;
                full_keys = map (\<lambda>key. metric_name @ ''.'' @ key) keys;
                mgr = mgr\<lparr>key_cache := (key_cache mgr)[i := keys],
                          full_key_cache := (full_key_cache mgr)[i := full_keys]\<rparr>;
                obsolete = order (filter (\<lambda>k. k \<notin> set full_keys) old_full_keys);
                mgr = mgr\<lparr>snapshot := foldl dict_pop (snapshot mgr) obsolete\<rparr>
            in write_values mgr keys full_keys values)
         else write_values mgr keys full_keys values)"

text \<open>\<open>MetricsManager.update_all\<close> on a filled \<open>TickStruct\<close>: the manager and the returned copy.\<close>

definition update_all ::
  "(nat \<Rightarrow> string list \<Rightarrow> string list) \<Rightarrow> ('s, 'v) MetricsManager \<Rightarrow> TickStruct
     \<Rightarrow> ('s, 'v) MetricsManager \<times> (string \<times> 'v option) list" where
  "update_all order mgr tick =
     (let mgr = foldl (\<lambda>mgr i. update_metric (order i) tick mgr i) mgr [0..<length (metrics mgr)]
      in (mgr, snapshot mgr))"

text \<open>
  A run of \<open>update_all\<close> calls over a tick sequence, the call number \<open>n\<close> counted from the
  first: the snapshots returned, and the manager left behind.
\<close>

fun run_snapshots ::
  "(nat \<Rightarrow> nat \<Rightarrow> string list \<Rightarrow> string list) \<Rightarrow> nat \<Rightarrow> ('s, 'v) MetricsManager \<Rightarrow> TickStruct list
     \<Rightarrow> (string \<times> 'v option) list list" where
  "run_snapshots order n mgr [] = []"
| "run_snapshots order n mgr (tick # ticks) =
     snd (update_all (order n) mgr tick) # run_snapshots order (Suc n) (fst (update_all (order n) mgr tick)) ticks"

fun run_manager ::
  "(nat \<Rightarrow> nat \<Rightarrow> string list \<Rightarrow> string list) \<Rightarrow> nat \<Rightarrow> ('s, 'v) MetricsManager \<Rightarrow> TickStruct list
     \<Rightarrow> ('s, 'v) MetricsManager" where
  "run_manager order n mgr [] = mgr"
| "run_manager order n mgr (tick # ticks) =
     run_manager order (Suc n) (fst (update_all (order n) mgr tick)) ticks"

text \<open>An iteration order yields exactly the elements of the set it is given.\<close>

definition order_ok :: "(nat \<Rightarrow> nat \<Rightarrow> string list \<Rightarrow> string list) \<Rightarrow> bool" where
  "order_ok order \<longleftrightarrow> (\<forall>n i xs. set (order n i xs) = set xs)"

text \<open>
  Two metric objects over a \<open>SessionMetric\<close>: the metric itself, and an object that is no
  \<open>BaseMetric\<close> and reports other keys while the market is closed than while it is open.
\<close>

definition session_metric :: "(SessionMetric, string) metric" where
  "session_metric =
     \<lparr>m_name = ''session'', m_state = SessionMetric_init ''session'',
      m_update = SessionMetric_update_from_struct,
      m_value = (\<lambda>s. [(''session_label'', session s)])\<rparr>"

definition market_metric :: "(SessionMetric, string) metric" where
  "market_metric =
     \<lparr>m_name = ''market'', m_state = SessionMetric_init ''market'',
      m_update = SessionMetric_update_from_struct,
      m_value = (\<lambda>s. if session s = ''Other'' then [(''closed'', ''yes''), (''reason'', ''Other'')]
                       else [(''open'', session s)])\<rparr>"


chapter \<open>Verification\<close>

section \<open>Session table\<close>

lemma SESSION_TABLE_nth:
  "i < 1440 \<Longrightarrow> SESSION_TABLE ! i = table_entry i"
  by (simp add: SESSION_TABLE_def build_table_def)

lemma table_entry_spec:
  assumes "0 \<le> h" "h \<le> 23" "0 \<le> m" "m \<le> 59"
  shows "table_entry (nat (h * 60 + m)) = spec_session_label h m"
proof -
  have d: "nat (h * 60 + m) div 60 = nat h"
    using assms by (simp add: nat_div_distrib nat_add_distrib div_pos_pos_trivial)
  show ?thesis
    using assms unfolding table_entry_def spec_session_label_def hhmm_def Let_def d
    by auto
qed

text \<open>
  C9. For every tick whose hour is in \<open>[0, 23]\<close> and minute in \<open>[0, 59]\<close>, the label after
  \<open>SessionMetric.update\<close> is the one the specification's table gives for that wall-clock
  time.
\<close>

theorem session_label_table:
  assumes "0 \<le> hour tick" "hour tick \<le> 23" "0 \<le> minute tick" "minute tick \<le> 59"
  shows "session (SessionMetric_update_from_struct m tick)
           = spec_session_label (hour tick) (minute tick)"
proof -
  let ?idx = "hour tick * 60 + minute tick"
  have r: "0 \<le> ?idx" "?idx < 1440" using assms by auto
  then have "nat ?idx < 1440" by simp
  then have "SESSION_TABLE ! nat ?idx = table_entry (nat ?idx)"
    by (rule SESSION_TABLE_nth)
  with r show ?thesis
    using table_entry_spec[OF assms]
    by (simp add: SessionMetric_update_from_struct_def Let_def)
qed

text \<open>Scenario S3: 14:30 is the overlap session, 23:00 is Asia, 21:00 is Other.\<close>

theorem session_label_table_witness:
  "session (SessionMetric_update_from_struct (SessionMetric_init ''session'') (tick_at 14 30))
     = ''London_New_York_Overlap''
   \<and> session (SessionMetric_update_from_struct (SessionMetric_init ''session'') (tick_at 23 0))
     = ''Asia''
   \<and> session (SessionMetric_update_from_struct (SessionMetric_init ''session'') (tick_at 21 0))
     = ''Other''"
  using session_label_table[of "tick_at 14 30" "SessionMetric_init ''session''"]
        session_label_table[of "tick_at 23 0" "SessionMetric_init ''session''"]
        session_label_table[of "tick_at 21 0" "SessionMetric_init ''session''"]
  by (simp add: tick_at_def spec_session_label_def hhmm_def)

section \<open>Rolling window: skipped samples and empty statistics\<close>

lemma init_sum_w: "sum_w (TimeRollingWindow_init l) = Fin 0"
  by (simp add: TimeRollingWindow_init_def w_ensure_capacity_def Let_def)

text \<open>
  C7. \<open>TimeRollingWindow.append\<close> called with a non-finite \<open>ts\<close>, \<open>value\<close> or \<open>dt\<close>
  returns the window unchanged, every field of it; and \<open>stats\<close> returns \<open>(NaN, NaN)\<close>
  whenever the running weight is at most \<open>1e-12\<close>.
\<close>

theorem append_skips_nonfinite_and_stats_nan:
  "(\<not> (isfinite ts \<and> isfinite v \<and> isfinite dt) \<longrightarrow> w_append w ts v dt = w)
   \<and> (dle (sum_w w) (Fin (1 / 10 ^ 12)) \<longrightarrow> w_stats w = (NaN, NaN))"
  by (simp add: w_append_def w_stats_def)

theorem append_skips_nonfinite_and_stats_nan_witness:
  "w_append (TimeRollingWindow_init (Fin 60)) (Fin 0) NaN (Fin 1) = TimeRollingWindow_init (Fin 60)
   \<and> w_append (TimeRollingWindow_init (Fin 60)) PInf (Fin 1) (Fin 1) = TimeRollingWindow_init (Fin 60)
   \<and> w_stats (TimeRollingWindow_init (Fin 60)) = (NaN, NaN)"
  using append_skips_nonfinite_and_stats_nan[of "Fin 0" NaN "Fin 1" "TimeRollingWindow_init (Fin 60)"]
        append_skips_nonfinite_and_stats_nan[of PInf "Fin 1" "Fin 1" "TimeRollingWindow_init (Fin 60)"]
  by (simp add: init_sum_w)

section \<open>Ring buffers\<close>

lemma length_ring_live [simp]: "length (ring_live view c h n) = n"
  by (simp add: ring_live_def)

lemma ring_live_nth: "i < n \<Longrightarrow> ring_live view c h n ! i = view ! ((h + i) mod c)"
  by (simp add: ring_live_def)

lemma ring_slot_distinct:
  assumes "i < n" "n < c"
  shows "(h + i) mod c \<noteq> (h + n) mod (c::nat)"
proof
  assume e: "(h + i) mod c = (h + n) mod c"
  have "h + i \<le> h + n" using assms by simp
  then have "c dvd (h + n) - (h + i)"
    using e mod_eq_dvd_iff_nat[of "h + i" "h + n" c] by simp
  then have "c dvd n - i" by simp
  moreover have "0 < n - i" "n - i < c" using assms by auto
  ultimately show False using nat_dvd_not_less by blast
qed

lemma ring_live_push:
  assumes "n < c" "length view = c"
  shows "ring_live (view[(h + n) mod c := v]) c h (Suc n) = ring_live view c h n @ [v]"
proof (rule nth_equalityI)
  show "length (ring_live (view[(h + n) mod c := v]) c h (Suc n)) = length (ring_live view c h n @ [v])"
    by simp
next
  fix i assume "i < length (ring_live (view[(h + n) mod c := v]) c h (Suc n))"
  then have i: "i < Suc n" by simp
  show "ring_live (view[(h + n) mod c := v]) c h (Suc n) ! i = (ring_live view c h n @ [v]) ! i"
  proof (cases "i = n")
    case True
    then show ?thesis using assms by (simp add: ring_live_nth nth_append)
  next
    case False
    with i have "i < n" by simp
    then show ?thesis
      using assms ring_slot_distinct[of i n c h]
      by (simp add: ring_live_nth nth_append)
  qed
qed

lemma ring_live_pop:
  assumes "0 < n"
  shows "ring_live view c (Suc h mod c) (n - Suc 0) = tl (ring_live view c h n)"
proof (rule nth_equalityI)
  show "length (ring_live view c (Suc h mod c) (n - Suc 0)) = length (tl (ring_live view c h n))"
    by simp
next
  fix i assume "i < length (ring_live view c (Suc h mod c) (n - Suc 0))"
  then have i: "i < n - 1" by simp
  have "(Suc h mod c + i) mod c = (h + Suc i) mod c"
    by (metis add_Suc_right add_Suc_shift mod_add_left_eq)
  then show "ring_live view c (Suc h mod c) (n - Suc 0) ! i = tl (ring_live view c h n) ! i"
    using i by (simp add: ring_live_nth nth_tl)
qed

lemma ring_live_head:
  assumes "0 < n" "h < c"
  shows "ring_live view c h n = view ! h # tl (ring_live view c h n)"
proof -
  have ne: "ring_live view c h n \<noteq> []"
    using assms by (metis length_ring_live length_0_conv less_numeral_extra(3))
  moreover have "hd (ring_live view c h n) = view ! h"
    using assms ne by (simp add: hd_conv_nth ring_live_nth)
  ultimately show ?thesis by (metis list.collapse)
qed

lemma ring_live_set_head:
  assumes "0 < n" "n \<le> c" "h < c" "length view = c"
  shows "ring_live (view[h := v]) c h n = v # tl (ring_live view c h n)"
proof (rule nth_equalityI)
  show "length (ring_live (view[h := v]) c h n) = length (v # tl (ring_live view c h n))"
    using assms by simp
next
  fix i assume "i < length (ring_live (view[h := v]) c h n)"
  then have i: "i < n" by simp
  show "ring_live (view[h := v]) c h n ! i = (v # tl (ring_live view c h n)) ! i"
  proof (cases i)
    case 0
    then show ?thesis using assms by (simp add: ring_live_nth)
  next
    case (Suc j)
    have "(h + 0) mod c \<noteq> (h + Suc j) mod c"
    proof
      assume e: "(h + 0) mod c = (h + Suc j) mod c"
      then have "c dvd (h + Suc j) - (h + 0)"
        using mod_eq_dvd_iff_nat[of "h + 0" "h + Suc j" c] by simp
      then have "c dvd Suc j" by simp
      moreover have "Suc j < c" using Suc i assms by simp
      ultimately show False using nat_dvd_not_less by blast
    qed
    then have "(h + Suc j) mod c \<noteq> h" using assms by simp
    then show ?thesis using Suc i assms by (simp add: ring_live_nth nth_tl)
  qed
qed

lemma ring_live_copy:
  assumes "0 < c" "n \<le> c'"
  shows "ring_live (ring_copy f view c h n c') c' 0 n = ring_live view c h n"
  using assms by (auto simp: ring_live_def ring_copy_def)

lemma ring_live_butlast:
  "ring_live view c h (n - 1) = butlast (ring_live view c h n)"
  by (cases n) (simp_all add: ring_live_def)

lemma length_ring_copy [simp]: "length (ring_copy f view c h n c') = c'"
  by (simp add: ring_copy_def)

lemma tl_zip: "tl (zip xs ys) = zip (tl xs) (tl ys)"
  by (cases xs; cases ys) simp_all

section \<open>Z-score metric\<close>

text \<open>
  C4 (amended). After every \<open>ZScoreMetric\<close> update at tick \<open>(t, mid)\<close>, with \<open>(mean, std)\<close>
  the \<open>stats()\<close> of the window that now holds the tick: \<open>rolling_residual\<close> is
  \<open>mid - mean\<close> when the mean is finite and \<open>NaN\<close> otherwise; \<open>z_score\<close> is
  \<open>(mid - mean) / std\<close> when \<open>std\<close> is finite and above \<open>1e-12\<close>, and \<open>0\<close> otherwise. So while
  the window has no finite stats the residual is \<open>NaN\<close> and the z-score is \<open>0\<close>.
\<close>

theorem zscore_update_fields:
  "z_resid (ZScoreMetric_update_from_struct m tick) =
     (if isfinite (fst (w_stats (z_window (ZScoreMetric_update_from_struct m tick))))
      then dsub (mid tick) (fst (w_stats (z_window (ZScoreMetric_update_from_struct m tick))))
      else NaN)
   \<and> z_z (ZScoreMetric_update_from_struct m tick) =
     (if isfinite (snd (w_stats (z_window (ZScoreMetric_update_from_struct m tick))))
         \<and> \<not> dle (snd (w_stats (z_window (ZScoreMetric_update_from_struct m tick)))) (Fin (1 / 10 ^ 12))
      then ddiv (dsub (mid tick) (fst (w_stats (z_window (ZScoreMetric_update_from_struct m tick)))))
             (snd (w_stats (z_window (ZScoreMetric_update_from_struct m tick))))
      else Fin 0)"
  by (auto simp add: ZScoreMetric_update_from_struct_def Let_def)

lemma first_tick_window:
  "w_append (TimeRollingWindow_init (Fin 60)) (Fin 0) (Fin 1) (Fin 0) =
     (TimeRollingWindow_init (Fin 60))
       \<lparr>ts_view := (ts_view (TimeRollingWindow_init (Fin 60)))[0 := Fin 0],
        val_view := (val_view (TimeRollingWindow_init (Fin 60)))[0 := Fin 1],
        dt_view := (dt_view (TimeRollingWindow_init (Fin 60)))[0 := Fin (1 / 10 ^ 9)],
        w_size := 1, sum_w := Fin (1 / 10 ^ 9), sum_x := Fin (1 / 10 ^ 9), sum_x2 := Fin (1 / 10 ^ 9)\<rparr>"
  by (simp add: TimeRollingWindow_init_def w_ensure_capacity_def
      grown_capacity_def ring_copy_def w_append_def w_trim_def w_trim_loop.simps w_clamp_def
      Let_def EPS_def MIN_DT_def w_head_end_def dsub_def w_pop_head_def
      w_shorten_head_def upt_rec)

lemma first_tick_stats:
  "w_stats (w_append (TimeRollingWindow_init (Fin 60)) (Fin 0) (Fin 1) (Fin 0)) = (Fin 1, Fin 0)"
  unfolding first_tick_window by (simp add: w_stats_def Let_def dsub_def)

lemma first_tick_update_window:
  "z_window (ZScoreMetric_update_from_struct (ZScoreMetric_fresh ''z'' (Fin 60)) (quote_tick 0 1 1))
     = w_append (TimeRollingWindow_init (Fin 60)) (Fin 0) (Fin 1) (Fin 0)"
  by (simp add: ZScoreMetric_update_from_struct_def ZScoreMetric_fresh_def quote_tick_def Let_def)

text \<open>
  The first tick of a run, mid 1: the window holds one sample of weight \<open>1e-9\<close>, its stats
  are \<open>(1, 0)\<close>, the residual is \<open>0\<close> and so is the z-score.
\<close>

theorem zscore_update_fields_witness:
  "z_resid (ZScoreMetric_update_from_struct (ZScoreMetric_fresh ''z'' (Fin 60)) (quote_tick 0 1 1)) = Fin 0
   \<and> z_z (ZScoreMetric_update_from_struct (ZScoreMetric_fresh ''z'' (Fin 60)) (quote_tick 0 1 1)) = Fin 0"
  using zscore_update_fields[of "ZScoreMetric_fresh ''z'' (Fin 60)" "quote_tick 0 1 1"]
  unfolding first_tick_update_window first_tick_stats
  by (simp add: quote_tick_def dsub_def)

text \<open>
  A fresh metric fed a tick without a mid price: the window skips the sample, its weight
  is zero and its stats are \<open>(NaN, NaN)\<close>; the residual is \<open>NaN\<close>, the z-score is \<open>0.0\<close>.
\<close>

theorem zscore_zero_weight_counterexample:
  "w_stats (z_window (ZScoreMetric_update_from_struct (ZScoreMetric_fresh ''z'' (Fin 60)) nan_tick))
     = (NaN, NaN)
   \<and> z_resid (ZScoreMetric_update_from_struct (ZScoreMetric_fresh ''z'' (Fin 60)) nan_tick) = NaN
   \<and> z_z (ZScoreMetric_update_from_struct (ZScoreMetric_fresh ''z'' (Fin 60)) nan_tick) = Fin 0"
  by (simp add: ZScoreMetric_update_from_struct_def ZScoreMetric_fresh_def nan_tick_def Let_def
      w_append_def w_stats_def init_sum_w)

section \<open>Spread metric\<close>









section \<open>Monotonic queue: the ring holds the list\<close>

lemma ring_live_last:
  assumes "0 < n"
  shows "ring_live view c h n = ring_live view c h (n - 1) @ [view ! ((h + n - 1) mod c)]"
proof -
  obtain k where k: "n = Suc k" using assms by (cases n) auto
  show ?thesis unfolding k by (simp add: ring_live_def)
qed

lemma length_q_entries [simp]: "length (q_entries q) = q_size q"
  by (simp add: q_entries_def)

lemma a_pop_tail_snoc:
  "a_pop_tail mx (es @ [e]) p = (if dominated mx (snd e) p then a_pop_tail mx es p else es @ [e])"
  by (simp add: a_pop_tail_def)

lemma a_pop_tail_Nil [simp]: "a_pop_tail mx [] p = []"
  by (simp add: a_pop_tail_def)

lemma q_holds_snoc:
  assumes "q_holds q (es @ [e])"
  shows "0 < q_size q" "prices_view q ! ((q_head q + q_size q - 1) mod q_capacity q) = Fin (snd e)"
    "times_view q ! ((q_head q + q_size q - 1) mod q_capacity q) = Fin (fst e)"
    "q_holds (q\<lparr>q_size := q_size q - 1\<rparr>) es"
proof -
  have en: "q_entries q = map (\<lambda>e. (Fin (fst e), Fin (snd e))) (es @ [e])" and ok: "q_ok q"
    using assms by (simp_all add: q_holds_def)
  from en have "length (q_entries q) = Suc (length es)" by simp
  then show sz: "0 < q_size q" by simp
  let ?k = "(q_head q + q_size q - 1) mod q_capacity q"
  have "q_entries q = zip (ring_live (times_view q) (q_capacity q) (q_head q) (q_size q - 1))
         (ring_live (prices_view q) (q_capacity q) (q_head q) (q_size q - 1))
         @ [(times_view q ! ?k, prices_view q ! ?k)]"
    unfolding q_entries_def
    using ring_live_last[OF sz, of "times_view q" "q_capacity q" "q_head q"]
      ring_live_last[OF sz, of "prices_view q" "q_capacity q" "q_head q"]
    by simp
  with en have e: "zip (ring_live (times_view q) (q_capacity q) (q_head q) (q_size q - 1))
         (ring_live (prices_view q) (q_capacity q) (q_head q) (q_size q - 1)) = map (\<lambda>e. (Fin (fst e), Fin (snd e))) es"
    "(times_view q ! ?k, prices_view q ! ?k) = (Fin (fst e), Fin (snd e))"
    by simp_all
  from e(2) show "prices_view q ! ?k = Fin (snd e)" "times_view q ! ?k = Fin (fst e)" by simp_all
  show "q_holds (q\<lparr>q_size := q_size q - 1\<rparr>) es"
    using e(1) ok by (auto simp: q_holds_def q_entries_def q_ok_def)
qed

lemma q_pop_tail_holds:
  assumes "q_holds q es"
  shows "q_holds (q_pop_tail q (Fin p)) (a_pop_tail (is_max q) es p)
         \<and> is_max (q_pop_tail q (Fin p)) = is_max q"
  using assms
proof (induction q "Fin p" arbitrary: es rule: q_pop_tail.induct)
  case (1 q)
  show ?case
  proof (cases es rule: rev_cases)
    case Nil
    with 1(2) have "q_size q = 0"
      by (metis length_q_entries list.map_disc_iff list.size(3) q_holds_def)
    then have "q_pop_tail q (Fin p) = q" by (subst q_pop_tail.simps) simp
    then show ?thesis using 1(2) Nil by simp
  next
    case (snoc xs e)
    note h = q_holds_snoc[OF 1(2)[unfolded snoc]]
    have dom: "q_tail_dominated q (Fin p) = dominated (is_max q) (snd e) p"
      using h(2) by (simp add: q_tail_dominated_def dominated_def Let_def)
    show ?thesis
    proof (cases "dominated (is_max q) (snd e) p")
      case True
      with dom have d: "q_tail_dominated q (Fin p)" by simp
      from 1(1)[OF h(1) d h(4)]
      have "q_holds (q_pop_tail (q\<lparr>q_size := q_size q - 1\<rparr>) (Fin p)) (a_pop_tail (is_max q) xs p)
          \<and> is_max (q_pop_tail (q\<lparr>q_size := q_size q - 1\<rparr>) (Fin p)) = is_max q" by simp
      moreover have "q_pop_tail q (Fin p) = q_pop_tail (q\<lparr>q_size := q_size q - 1\<rparr>) (Fin p)"
        using h(1) d by (subst q_pop_tail.simps) simp
      ultimately show ?thesis using True by (simp add: snoc a_pop_tail_snoc)
    next
      case False
      with dom have "q_pop_tail q (Fin p) = q" by (subst q_pop_tail.simps) simp
      then show ?thesis using False 1(2) by (simp add: snoc a_pop_tail_snoc)
    qed
  qed
qed

lemma q_holds_ensure:
  assumes "q_holds q es" "q_size q = q_capacity q"
  shows "q_holds (q_ensure_capacity q (q_capacity q + 1)) es"
    "q_size (q_ensure_capacity q (q_capacity q + 1)) < q_capacity (q_ensure_capacity q (q_capacity q + 1))"
    "is_max (q_ensure_capacity q (q_capacity q + 1)) = is_max q"
proof -
  have ok: "q_ok q" using assms by (simp add: q_holds_def)
  then have c: "0 < q_capacity q" by (simp add: q_ok_def)
  have nc: "grown_capacity (q_capacity q) (Suc (q_capacity q)) = q_capacity q * 2"
    using c by (simp add: grown_capacity_def Let_def)
  have le: "q_capacity q \<le> q_capacity q * 2" by simp
  show "q_holds (q_ensure_capacity q (q_capacity q + 1)) es"
    using assms c
    by (simp add: q_holds_def q_ensure_capacity_def Let_def nc q_entries_def q_ok_def
        ring_live_copy[OF c le])
  show "q_size (q_ensure_capacity q (q_capacity q + 1)) < q_capacity (q_ensure_capacity q (q_capacity q + 1))"
    using assms c by (simp add: q_ensure_capacity_def Let_def nc)
  show "is_max (q_ensure_capacity q (q_capacity q + 1)) = is_max q"
    by (simp add: q_ensure_capacity_def Let_def)
qed

lemma q_holds_place:
  assumes "q_holds q es" "q_size q < q_capacity q"
  shows "q_holds
     (q\<lparr>prices_view := (prices_view q)[(q_head q + q_size q) mod q_capacity q := Fin p],
        times_view := (times_view q)[(q_head q + q_size q) mod q_capacity q := Fin t],
        q_size := q_size q + 1\<rparr>)
     (es @ [(t, p)])"
proof -
  have ok: "q_ok q" using assms by (simp add: q_holds_def)
  then have l: "length (times_view q) = q_capacity q" "length (prices_view q) = q_capacity q"
    by (simp_all add: q_ok_def)
  show ?thesis
    using assms ok
    by (simp add: q_holds_def q_entries_def q_ok_def ring_live_push[OF assms(2)] l)
qed

lemma q_append_holds:
  assumes "q_holds q es"
  shows "q_holds (q_append q (Fin t) (Fin p)) (a_apply (is_max q) es (Append t p))"
    "is_max (q_append q (Fin t) (Fin p)) = is_max q"
proof -
  define q1 where "q1 = q_pop_tail q (Fin p)"
  have q1: "q_holds q1 (a_pop_tail (is_max q) es p)" "is_max q1 = is_max q"
    using q_pop_tail_holds[OF assms, of p] by (simp_all add: q1_def)
  define q2 where "q2 = (if q_size q1 = q_capacity q1 then q_ensure_capacity q1 (q_capacity q1 + 1) else q1)"
  have "q_ok q1" using q1 by (simp add: q_holds_def)
  then have q2: "q_holds q2 (a_pop_tail (is_max q) es p)" "q_size q2 < q_capacity q2" "is_max q2 = is_max q"
    using q_holds_ensure[OF q1(1)] q1 by (auto simp: q2_def q_ok_def)
  have ap: "q_append q (Fin t) (Fin p) =
      q2\<lparr>prices_view := (prices_view q2)[(q_head q2 + q_size q2) mod q_capacity q2 := Fin p],
        times_view := (times_view q2)[(q_head q2 + q_size q2) mod q_capacity q2 := Fin t],
        q_size := q_size q2 + 1\<rparr>"
    by (simp add: q_append_def Let_def q1_def q2_def)
  show "q_holds (q_append q (Fin t) (Fin p)) (a_apply (is_max q) es (Append t p))"
    unfolding ap using q_holds_place[OF q2(1,2)] by simp
  show "is_max (q_append q (Fin t) (Fin p)) = is_max q"
    unfolding ap using q2(3) by simp
qed

lemma q_holds_Cons:
  assumes "q_holds q (e # es)"
  shows "0 < q_size q" "times_view q ! q_head q = Fin (fst e)" "prices_view q ! q_head q = Fin (snd e)"
    "q_holds (q\<lparr>q_head := (q_head q + 1) mod q_capacity q, q_size := q_size q - 1\<rparr>) es"
proof -
  have en: "q_entries q = map (\<lambda>e. (Fin (fst e), Fin (snd e))) (e # es)" and ok: "q_ok q"
    using assms by (simp_all add: q_holds_def)
  from en have "length (q_entries q) = Suc (length es)" by simp
  then show sz: "0 < q_size q" by simp
  have h: "q_head q < q_capacity q" using ok by (simp add: q_ok_def)
  have "q_entries q = (times_view q ! q_head q, prices_view q ! q_head q) # tl (q_entries q)"
    unfolding q_entries_def tl_zip
    using ring_live_head[OF sz h, of "times_view q"] ring_live_head[OF sz h, of "prices_view q"]
    by (metis zip_Cons_Cons)
  with en have e: "(times_view q ! q_head q, prices_view q ! q_head q) = (Fin (fst e), Fin (snd e))"
    "tl (q_entries q) = map (\<lambda>e. (Fin (fst e), Fin (snd e))) es"
    by simp_all
  from e(1) show "times_view q ! q_head q = Fin (fst e)" "prices_view q ! q_head q = Fin (snd e)"
    by simp_all
  have "q_entries (q\<lparr>q_head := (q_head q + 1) mod q_capacity q, q_size := q_size q - 1\<rparr>) = tl (q_entries q)"
    using sz by (simp add: q_entries_def ring_live_pop tl_zip)
  then show "q_holds (q\<lparr>q_head := (q_head q + 1) mod q_capacity q, q_size := q_size q - 1\<rparr>) es"
    using e(2) ok by (auto simp: q_holds_def q_ok_def)
qed

lemma q_trim_loop_holds:
  assumes "q_holds q es"
  shows "q_holds (q_trim_loop q (Fin c)) (dropWhile (\<lambda>e. fst e < c) es)
         \<and> is_max (q_trim_loop q (Fin c)) = is_max q"
  using assms
proof (induction q "Fin c" arbitrary: es rule: q_trim_loop.induct)
  case (1 q)
  show ?case
  proof (cases es)
    case Nil
    with 1(2) have "q_size q = 0"
      by (metis length_q_entries list.map_disc_iff list.size(3) q_holds_def)
    then have "q_trim_loop q (Fin c) = q" by (subst q_trim_loop.simps) simp
    then show ?thesis using 1(2) Nil by simp
  next
    case (Cons e xs)
    note h = q_holds_Cons[OF 1(2)[unfolded Cons]]
    show ?thesis
    proof (cases "fst e < c")
      case True
      then have d: "dlt (times_view q ! q_head q) (Fin c)" using h(2) by simp
      from 1(1)[OF h(1) d h(4)]
      have "q_holds (q_trim_loop (q\<lparr>q_head := (q_head q + 1) mod q_capacity q, q_size := q_size q - 1\<rparr>) (Fin c))
              (dropWhile (\<lambda>e. fst e < c) xs)
          \<and> is_max (q_trim_loop (q\<lparr>q_head := (q_head q + 1) mod q_capacity q, q_size := q_size q - 1\<rparr>) (Fin c)) = is_max q"
        by simp
      moreover have "q_trim_loop q (Fin c) = q_trim_loop (q\<lparr>q_head := (q_head q + 1) mod q_capacity q, q_size := q_size q - 1\<rparr>) (Fin c)"
        using h(1) d by (subst q_trim_loop.simps) simp
      ultimately show ?thesis using True by (simp add: Cons)
    next
      case False
      then have "\<not> dlt (times_view q ! q_head q) (Fin c)" using h(2) by simp
      then have "q_trim_loop q (Fin c) = q" by (subst q_trim_loop.simps) simp
      then show ?thesis using False 1(2) by (simp add: Cons)
    qed
  qed
qed

lemma q_trim_holds:
  assumes "q_holds q es"
  shows "q_holds (q_trim q (Fin c)) (a_apply (is_max q) es (Trim c))"
    "is_max (q_trim q (Fin c)) = is_max q"
proof -
  from q_trim_loop_holds[OF assms, of c]
  have l: "q_holds (q_trim_loop q (Fin c)) (dropWhile (\<lambda>e. fst e < c) es)"
    "is_max (q_trim_loop q (Fin c)) = is_max q" by simp_all
  show "is_max (q_trim q (Fin c)) = is_max q" using l(2) by (simp add: q_trim_def Let_def)
  show "q_holds (q_trim q (Fin c)) (a_apply (is_max q) es (Trim c))"
  proof (cases "q_size (q_trim_loop q (Fin c)) = 0")
    case True
    then have e: "dropWhile (\<lambda>e. fst e < c) es = []"
      using l(1) by (metis length_q_entries length_0_conv map_is_Nil_conv q_holds_def)
    have "q_holds (q_trim_loop q (Fin c)\<lparr>q_head := 0\<rparr>) []"
      using l(1) True by (simp add: q_holds_def q_ok_def q_entries_def ring_live_def)
    then have "q_holds (q_trim_loop q (Fin c)\<lparr>q_head := 0\<rparr>) (dropWhile (\<lambda>e. fst e < c) es)"
      unfolding e .
    then show ?thesis using True by (simp add: q_trim_def Let_def)
  next
    case False
    then show ?thesis using l(1) by (simp add: q_trim_def Let_def)
  qed
qed

lemma q_holds_init: "q_holds (MonotonicQueue_init n mx) []" "is_max (MonotonicQueue_init n mx) = mx"
  by (auto simp: q_holds_def MonotonicQueue_init_def q_ensure_capacity_def Let_def q_ok_def
      q_entries_def grown_capacity_def ring_live_def)

lemma q_run_holds:
  assumes "q_holds q es"
  shows "q_holds (q_run q ops) (foldl (a_apply (is_max q)) es ops) \<and> is_max (q_run q ops) = is_max q"
  using assms
proof (induction ops arbitrary: q es)
  case Nil
  then show ?case by (simp add: q_run_def)
next
  case (Cons op ops)
  have "q_holds (q_apply q op) (a_apply (is_max q) es op) \<and> is_max (q_apply q op) = is_max q"
    using q_append_holds[OF Cons.prems] q_trim_holds[OF Cons.prems] by (cases op) simp_all
  with Cons.IH[of "q_apply q op" "a_apply (is_max q) es op"] show ?case
    by (simp add: q_run_def)
qed

section \<open>Monotonic queue: what the list holds\<close>

lemma appended_append [simp]: "appended (xs @ ys) = appended xs @ appended ys"
  by (induction xs rule: appended.induct) simp_all

lemma cutoffs_append [simp]: "cutoffs (xs @ ys) = cutoffs xs @ cutoffs ys"
  by (induction xs rule: cutoffs.induct) simp_all

lemma ops_ok_from_snoc:
  "ops_ok_from l (ops @ [op]) \<longleftrightarrow>
     ops_ok_from l ops \<and>
     ops_ok_from (if appended ops = [] then l else Some (fst (last (appended ops)))) [op]"
proof (induction l ops rule: ops_ok_from.induct)
  case (1 latest)
  then show ?case by simp
next
  case (2 latest t p ops)
  then show ?case by (cases "appended ops = []") auto
next
  case (3 latest c ops)
  then show ?case by auto
qed

lemma ops_ok_snoc:
  "ops_ok (ops @ [op]) \<longleftrightarrow> ops_ok ops \<and> ops_ok_from (now_of ops) [op]"
  unfolding ops_ok_def now_of_def using ops_ok_from_snoc[of None ops op] by simp

lemma a_run_snoc [simp]: "a_run mx (ops @ [op]) = a_apply mx (a_run mx ops) op"
  by (simp add: a_run_def)

lemma a_run_Nil [simp]: "a_run mx [] = []"
  by (simp add: a_run_def)

lemma dominated_total: "\<not> dominated mx a p \<Longrightarrow> dominated mx p a"
  by (auto simp: dominated_def)

lemma dominated_trans: "dominated mx a b \<Longrightarrow> dominated mx b c \<Longrightarrow> dominated mx a c"
  by (auto simp: dominated_def)

lemma dominated_refl [simp]: "dominated mx a a"
  by (simp add: dominated_def)

lemma a_pop_tail_prefix: "\<exists>zs. es = a_pop_tail mx es p @ zs \<and> (\<forall>z\<in>set zs. dominated mx (snd z) p)"
proof (induction es rule: rev_induct)
  case Nil
  then show ?case by simp
next
  case (snoc e es)
  then obtain zs where zs: "es = a_pop_tail mx es p @ zs" "\<forall>z\<in>set zs. dominated mx (snd z) p" by blast
  show ?case
  proof (cases "dominated mx (snd e) p")
    case True
    have "es @ [e] = a_pop_tail mx (es @ [e]) p @ (zs @ [e])"
      using zs(1) True by (simp add: a_pop_tail_snoc)
    moreover have "\<forall>z\<in>set (zs @ [e]). dominated mx (snd z) p" using zs(2) True by simp
    ultimately show ?thesis by blast
  next
    case False
    then have "es @ [e] = a_pop_tail mx (es @ [e]) p @ []" by (simp add: a_pop_tail_snoc)
    then show ?thesis by (metis empty_iff list.set(1))
  qed
qed

lemma a_pop_tail_last:
  "a_pop_tail mx es p \<noteq> [] \<Longrightarrow> \<not> dominated mx (snd (last (a_pop_tail mx es p))) p"
proof (induction es rule: rev_induct)
  case Nil
  then show ?case by simp
next
  case (snoc e es)
  then show ?case by (cases "dominated mx (snd e) p") (simp_all add: a_pop_tail_snoc)
qed

lemma sorted_fst_le_last:
  assumes "sorted (map fst xs)" "x \<in> set xs"
  shows "fst x \<le> (fst (last xs) :: real)"
  using assms
proof (induction xs)
  case Nil
  then show ?case by simp
next
  case (Cons a xs)
  then show ?case by (cases "xs = []") auto
qed

lemma sorted_wrt_to_last:
  assumes "sorted_wrt R xs" "x \<in> set xs"
  shows "x = last xs \<or> R x (last xs)"
  using assms
proof (induction xs)
  case Nil
  then show ?case by simp
next
  case (Cons a xs)
  then show ?case by (cases "xs = []") auto
qed

lemma dropWhile_keeps: "x \<in> set xs \<Longrightarrow> \<not> P x \<Longrightarrow> x \<in> set (dropWhile P xs)"
  by (induction xs) auto

lemma dropWhile_last: "xs \<noteq> [] \<Longrightarrow> \<not> P (last xs) \<Longrightarrow> dropWhile P xs \<noteq> [] \<and> last (dropWhile P xs) = last xs"
  by (induction xs) auto

lemma dropWhile_sorted_ge:
  assumes "sorted (map fst es)" "e \<in> set (dropWhile (\<lambda>e. fst e < c) es)"
  shows "(c::real) \<le> fst e"
  using assms
proof (induction es)
  case Nil
  then show ?case by simp
next
  case (Cons a es)
  show ?case
  proof (cases "fst a < c")
    case True
    then show ?thesis using Cons by simp
  next
    case False
    then have "e = a \<or> e \<in> set es" using Cons.prems(2) by simp
    moreover have "\<forall>x\<in>set es. fst a \<le> fst x" using Cons.prems(1) by simp
    ultimately show ?thesis using False by fastforce
  qed
qed

lemma sorted_wrt_dropWhile: "sorted_wrt R xs \<Longrightarrow> sorted_wrt R (dropWhile P xs)"
  by (induction xs) auto

lemma a_inv_append:
  assumes inv: "a_inv mx ops es" and ok: "appended ops = [] \<or> fst (last (appended ops)) \<le> t"
  shows "a_inv mx (ops @ [Append t p]) (a_apply mx es (Append t p))"
proof -
  let ?A = "appended ops" and ?C = "cutoffs ops"
  from inv have i1: "sorted (map fst ?A)"
    and i2: "\<forall>c\<in>set ?C. ?A \<noteq> [] \<and> c \<le> fst (last ?A)"
    and i3: "sorted (map fst es)"
    and i4: "sorted_wrt (\<lambda>a b. dominated mx (snd b) (snd a)) es"
    and i5: "\<forall>e\<in>set es. e \<in> set ?A \<and> (\<forall>c\<in>set ?C. c \<le> fst e)"
    and i6: "\<forall>e\<in>set ?A. (\<forall>c\<in>set ?C. c \<le> fst e) \<longrightarrow>
        (\<exists>e'\<in>set es. fst e \<le> fst e' \<and> dominated mx (snd e) (snd e'))"
    and i7: "?A \<noteq> [] \<longrightarrow> es \<noteq> [] \<and> last es = last ?A"
    by (simp_all add: a_inv_def)
  have le_t: "fst x \<le> t" if "x \<in> set ?A" for x
    using sorted_fst_le_last[OF i1 that] ok that by auto
  obtain zs where zs: "es = a_pop_tail mx es p @ zs" "\<forall>z\<in>set zs. dominated mx (snd z) p"
    using a_pop_tail_prefix by blast
  let ?P = "a_pop_tail mx es p"
  have sub: "set ?P \<subseteq> set es" using zs(1) by (metis Un_upper1 set_append)
  have s3: "sorted (map fst ?P)" using i3 zs(1) by (metis map_append sorted_append)
  have s4: "sorted_wrt (\<lambda>a b. dominated mx (snd b) (snd a)) ?P"
    using i4 zs(1) by (metis sorted_wrt_append)
  have dom_new: "dominated mx p (snd e)" if "e \<in> set ?P" for e
  proof -
    have ne: "?P \<noteq> []" using that by auto
    from a_pop_tail_last[OF ne] have l: "dominated mx p (snd (last ?P))"
      by (rule dominated_total)
    from sorted_wrt_to_last[OF s4 that] show ?thesis
      using l dominated_trans by blast
  qed
  have c1: "sorted (map fst (appended (ops @ [Append t p])))"
    using i1 le_t by (auto simp: sorted_append)
  have c2: "\<forall>c\<in>set (cutoffs (ops @ [Append t p])).
      appended (ops @ [Append t p]) \<noteq> [] \<and> c \<le> fst (last (appended (ops @ [Append t p])))"
    using i2 ok by auto
  have "\<forall>e\<in>set ?P. fst e \<le> t" using sub i5 le_t by blast
  then have c3: "sorted (map fst (a_apply mx es (Append t p)))"
    using s3 by (simp add: sorted_append)
  have c4: "sorted_wrt (\<lambda>a b. dominated mx (snd b) (snd a)) (a_apply mx es (Append t p))"
    using s4 dom_new by (auto simp: sorted_wrt_append)
  have c5: "\<forall>e\<in>set (a_apply mx es (Append t p)). e \<in> set (appended (ops @ [Append t p]))
      \<and> (\<forall>c\<in>set (cutoffs (ops @ [Append t p])). c \<le> fst e)"
    using sub i5 c2 by auto
  have c6: "\<forall>e\<in>set (appended (ops @ [Append t p])). (\<forall>c\<in>set (cutoffs (ops @ [Append t p])). c \<le> fst e) \<longrightarrow>
        (\<exists>e'\<in>set (a_apply mx es (Append t p)). fst e \<le> fst e' \<and> dominated mx (snd e) (snd e'))"
  proof (intro ballI impI)
    fix e assume e: "e \<in> set (appended (ops @ [Append t p]))"
      and w: "\<forall>c\<in>set (cutoffs (ops @ [Append t p])). c \<le> fst e"
    show "\<exists>e'\<in>set (a_apply mx es (Append t p)). fst e \<le> fst e' \<and> dominated mx (snd e) (snd e')"
    proof (cases "e = (t, p)")
      case True
      then show ?thesis by auto
    next
      case False
      with e have eA: "e \<in> set ?A" by simp
      with i6 w obtain e' where e': "e' \<in> set es" "fst e \<le> fst e'" "dominated mx (snd e) (snd e')"
        by auto
      show ?thesis
      proof (cases "e' \<in> set ?P")
        case True
        then show ?thesis using e' by auto
      next
        case False
        then have "e' \<in> set zs" using e'(1) zs(1) by (metis Un_iff set_append)
        then have "dominated mx (snd e') p" using zs(2) by simp
        then have "dominated mx (snd e) p" using e'(3) dominated_trans by blast
        then show ?thesis using le_t[OF eA] by auto
      qed
    qed
  qed
  have c7: "appended (ops @ [Append t p]) \<noteq> [] \<longrightarrow>
      a_apply mx es (Append t p) \<noteq> [] \<and> last (a_apply mx es (Append t p)) = last (appended (ops @ [Append t p]))"
    by simp
  show ?thesis unfolding a_inv_def using c1 c2 c3 c4 c5 c6 c7 by blast
qed

lemma a_inv_trim:
  assumes inv: "a_inv mx ops es" and ok: "appended ops \<noteq> []" "c \<le> fst (last (appended ops))"
  shows "a_inv mx (ops @ [Trim c]) (a_apply mx es (Trim c))"
proof -
  let ?A = "appended ops" and ?C = "cutoffs ops"
  from inv have i1: "sorted (map fst ?A)"
    and i2: "\<forall>c\<in>set ?C. ?A \<noteq> [] \<and> c \<le> fst (last ?A)"
    and i3: "sorted (map fst es)"
    and i4: "sorted_wrt (\<lambda>a b. dominated mx (snd b) (snd a)) es"
    and i5: "\<forall>e\<in>set es. e \<in> set ?A \<and> (\<forall>c\<in>set ?C. c \<le> fst e)"
    and i6: "\<forall>e\<in>set ?A. (\<forall>c\<in>set ?C. c \<le> fst e) \<longrightarrow>
        (\<exists>e'\<in>set es. fst e \<le> fst e' \<and> dominated mx (snd e) (snd e'))"
    and i7: "?A \<noteq> [] \<longrightarrow> es \<noteq> [] \<and> last es = last ?A"
    by (simp_all add: a_inv_def)
  let ?D = "dropWhile (\<lambda>e. fst e < c) es"
  have sub: "set ?D \<subseteq> set es" by (simp add: set_dropWhileD subsetI)
  have c1: "sorted (map fst (appended (ops @ [Trim c])))" using i1 by simp
  have c2: "\<forall>c'\<in>set (cutoffs (ops @ [Trim c])).
      appended (ops @ [Trim c]) \<noteq> [] \<and> c' \<le> fst (last (appended (ops @ [Trim c])))"
    using i2 ok by auto
  have "sorted_wrt (\<lambda>a b. fst a \<le> fst b) ?D"
    using i3 by (intro sorted_wrt_dropWhile) (simp add: sorted_map)
  then have c3: "sorted (map fst (a_apply mx es (Trim c)))" by (simp add: sorted_map)
  have c4: "sorted_wrt (\<lambda>a b. dominated mx (snd b) (snd a)) (a_apply mx es (Trim c))"
    using i4 by (simp add: sorted_wrt_dropWhile)
  have c5: "\<forall>e\<in>set (a_apply mx es (Trim c)). e \<in> set (appended (ops @ [Trim c]))
      \<and> (\<forall>c'\<in>set (cutoffs (ops @ [Trim c])). c' \<le> fst e)"
    using sub i5 dropWhile_sorted_ge[OF i3] by auto
  have c6: "\<forall>e\<in>set (appended (ops @ [Trim c])). (\<forall>c'\<in>set (cutoffs (ops @ [Trim c])). c' \<le> fst e) \<longrightarrow>
        (\<exists>e'\<in>set (a_apply mx es (Trim c)). fst e \<le> fst e' \<and> dominated mx (snd e) (snd e'))"
  proof (intro ballI impI)
    fix e assume e: "e \<in> set (appended (ops @ [Trim c]))"
      and w: "\<forall>c'\<in>set (cutoffs (ops @ [Trim c])). c' \<le> fst e"
    from e have eA: "e \<in> set ?A" by simp
    from w have w1: "\<forall>c'\<in>set ?C. c' \<le> fst e" and w2: "c \<le> fst e" by simp_all
    from i6 eA w1 obtain e' where e': "e' \<in> set es" "fst e \<le> fst e'" "dominated mx (snd e) (snd e')"
      by auto
    then have "\<not> fst e' < c" using w2 by simp
    from dropWhile_keeps[OF e'(1), of "\<lambda>e. fst e < c", OF this] have "e' \<in> set ?D" .
    then show "\<exists>e'\<in>set (a_apply mx es (Trim c)). fst e \<le> fst e' \<and> dominated mx (snd e) (snd e')"
      using e' by auto
  qed
  have "es \<noteq> []" "last es = last ?A" using i7 ok by simp_all
  then have "\<not> fst (last es) < c" using ok by simp
  from dropWhile_last[OF \<open>es \<noteq> []\<close>, of "\<lambda>e. fst e < c", OF this] \<open>last es = last ?A\<close>
  have c7: "appended (ops @ [Trim c]) \<noteq> [] \<longrightarrow>
      a_apply mx es (Trim c) \<noteq> [] \<and> last (a_apply mx es (Trim c)) = last (appended (ops @ [Trim c]))"
    by simp
  show ?thesis unfolding a_inv_def using c1 c2 c3 c4 c5 c6 c7 by blast
qed

lemma a_inv_run:
  assumes "ops_ok ops"
  shows "a_inv mx ops (a_run mx ops)"
  using assms
proof (induction ops rule: rev_induct)
  case Nil
  then show ?case by (simp add: a_inv_def)
next
  case (snoc op ops)
  from snoc.prems have ok: "ops_ok ops" "ops_ok_from (now_of ops) [op]"
    by (simp_all add: ops_ok_snoc)
  note inv = snoc.IH[OF ok(1)]
  show ?case
  proof (cases op)
    case (Append t p)
    have "appended ops = [] \<or> fst (last (appended ops)) \<le> t"
      using ok(2) unfolding Append now_of_def by (auto split: if_splits)
    from a_inv_append[OF inv this] show ?thesis by (simp add: Append)
  next
    case (Trim c)
    have "appended ops \<noteq> []" "c \<le> fst (last (appended ops))"
      using ok(2) unfolding Trim now_of_def by (auto split: if_splits)
    from a_inv_trim[OF inv this] show ?thesis by (simp add: Trim)
  qed
qed

lemma in_window_appended:
  assumes "sorted (map fst (appended ops))" "e \<in> set (appended ops)"
  shows "in_window ops (fst e) \<longleftrightarrow> (\<forall>c\<in>set (cutoffs ops). c \<le> fst e)"
proof -
  have "appended ops \<noteq> []" using assms(2) by auto
  moreover have "fst e \<le> fst (last (appended ops))" using sorted_fst_le_last[OF assms] .
  ultimately show ?thesis by (simp add: in_window_def now_of_def list_all_iff)
qed

lemma extremum_eqI:
  assumes "x \<in> set ps" "\<forall>p\<in>set ps. dominated mx p x"
  shows "extremum mx ps = x"
proof (cases mx)
  case True
  then have "Max (set ps) = x" using assms by (intro Max_eqI) (auto simp: dominated_def)
  then show ?thesis using True by (simp add: extremum_def)
next
  case False
  then have "Min (set ps) = x" using assms by (intro Min_eqI) (auto simp: dominated_def)
  then show ?thesis using False by (simp add: extremum_def)
qed

text \<open>
  C3. Start from a fresh \<open>_MonotonicQueue\<close> and make any run of \<open>append(t, p)\<close> and
  \<open>trim(cutoff)\<close> calls in which the appended timestamps never decrease and every trim has
  a cutoff at most the latest appended timestamp. The queue is non-empty exactly when
  something was appended, and then the price at its head is the maximum, for a max queue,
  or the minimum, for a min queue, of all appended prices whose timestamp lies in
  \<open>[cutoff, now]\<close>, for the largest cutoff trimmed so far and the latest appended
  timestamp \<open>now\<close>.
\<close>

theorem monotonic_queue_head_extremum:
  assumes "ops_ok ops"
  shows "(0 < q_size (q_run (MonotonicQueue_init n mx) ops)) = (appended ops \<noteq> [])
         \<and> (0 < q_size (q_run (MonotonicQueue_init n mx) ops) \<longrightarrow>
              head_price (q_run (MonotonicQueue_init n mx) ops) = Fin (extremum mx (window_prices ops)))"
proof -
  let ?q = "q_run (MonotonicQueue_init n mx) ops" and ?es = "a_run mx ops"
  let ?A = "appended ops" and ?C = "cutoffs ops"
  have h: "q_holds ?q ?es"
    using q_run_holds[OF q_holds_init(1), of n mx ops] by (simp add: q_holds_init(2) a_run_def)
  then have sz: "q_size ?q = length ?es"
    by (metis length_q_entries length_map q_holds_def)
  from a_inv_run[OF assms, of mx] have i1: "sorted (map fst ?A)"
    and i4: "sorted_wrt (\<lambda>a b. dominated mx (snd b) (snd a)) ?es"
    and i5: "\<forall>e\<in>set ?es. e \<in> set ?A \<and> (\<forall>c\<in>set ?C. c \<le> fst e)"
    and i6: "\<forall>e\<in>set ?A. (\<forall>c\<in>set ?C. c \<le> fst e) \<longrightarrow>
        (\<exists>e'\<in>set ?es. fst e \<le> fst e' \<and> dominated mx (snd e) (snd e'))"
    and i7: "?A \<noteq> [] \<longrightarrow> ?es \<noteq> [] \<and> last ?es = last ?A"
    by (simp_all add: a_inv_def)
  have ne: "(0 < q_size ?q) = (?A \<noteq> [])"
  proof
    assume "0 < q_size ?q"
    then have "?es \<noteq> []" using sz by auto
    then obtain e where "e \<in> set ?es" by (meson last_in_set)
    then show "?A \<noteq> []" using i5 by auto
  next
    assume "?A \<noteq> []"
    then show "0 < q_size ?q" using i7 sz by simp
  qed
  have hd: "head_price ?q = Fin (extremum mx (window_prices ops))" if "0 < q_size ?q"
  proof -
    from that sz obtain e es' where es: "?es = e # es'" by (cases ?es) auto
    from q_holds_Cons(3)[OF h[unfolded es]] have hp: "head_price ?q = Fin (snd e)"
      by (simp add: head_price_def)
    have eA: "e \<in> set ?A" "\<forall>c\<in>set ?C. c \<le> fst e" using i5 es by simp_all
    then have "in_window ops (fst e)" using in_window_appended[OF i1] by simp
    then have mem: "snd e \<in> set (window_prices ops)" using eA(1) by (force simp: window_prices_def)
    have top: "dominated mx (snd e') (snd e)" if "e' \<in> set ?es" for e'
      using i4 that unfolding es by auto
    have "\<forall>p\<in>set (window_prices ops). dominated mx p (snd e)"
    proof
      fix p assume "p \<in> set (window_prices ops)"
      then obtain a where a: "a \<in> set ?A" "in_window ops (fst a)" "p = snd a"
        by (auto simp: window_prices_def)
      then have "\<forall>c\<in>set ?C. c \<le> fst a" using in_window_appended[OF i1] by simp
      with i6 a(1) obtain e' where "e' \<in> set ?es" "dominated mx (snd a) (snd e')" by blast
      then show "dominated mx p (snd e)" using top a(3) dominated_trans by blast
    qed
    from extremum_eqI[OF mem this] hp show ?thesis by simp
  qed
  show ?thesis using ne hd by blast
qed

text \<open>
  Prices 5, 3, 4 at times 1, 2, 3, then a trim at 2: the window holds 3 and 4; the max queue
  shows 4 and the min queue 3.
\<close>

theorem monotonic_queue_head_extremum_witness:
  "0 < q_size (q_run (MonotonicQueue_init 64 True) [Append 1 5, Append 2 3, Append 3 4, Trim 2])
   \<and> head_price (q_run (MonotonicQueue_init 64 True) [Append 1 5, Append 2 3, Append 3 4, Trim 2]) = Fin 4
   \<and> head_price (q_run (MonotonicQueue_init 64 False) [Append 1 5, Append 2 3, Append 3 4, Trim 2]) = Fin 3"
  using monotonic_queue_head_extremum[of "[Append 1 5, Append 2 3, Append 3 4, Trim 2]" 64 True]
    monotonic_queue_head_extremum[of "[Append 1 5, Append 2 3, Append 3 4, Trim 2]" 64 False]
  by (simp add: ops_ok_def window_prices_def in_window_def now_of_def extremum_def)

section \<open>Monotonic queue: the candidate search\<close>

lemma q_holds_nth:
  assumes "q_holds q es" "i < length es"
  shows "times_view q ! ((q_head q + i) mod q_capacity q) = Fin (fst (es ! i))"
    "prices_view q ! ((q_head q + i) mod q_capacity q) = Fin (snd (es ! i))"
proof -
  have en: "q_entries q = map (\<lambda>e. (Fin (fst e), Fin (snd e))) es"
    using assms by (simp add: q_holds_def)
  then have sz: "q_size q = length es" by (metis length_q_entries length_map)
  have "q_entries q ! i = (times_view q ! ((q_head q + i) mod q_capacity q),
      prices_view q ! ((q_head q + i) mod q_capacity q))"
    using assms(2) sz by (simp add: q_entries_def ring_live_nth)
  moreover have "q_entries q ! i = (Fin (fst (es ! i)), Fin (snd (es ! i)))"
    using assms(2) en by simp
  ultimately show "times_view q ! ((q_head q + i) mod q_capacity q) = Fin (fst (es ! i))"
    "prices_view q ! ((q_head q + i) mod q_capacity q) = Fin (snd (es ! i))"
    by simp_all
qed

lemma ring_step_back:
  assumes "0 < (c::nat)"
  shows "((h + Suc k) mod c + c - 1) mod c = (h + k) mod c"
proof -
  have "((h + Suc k) mod c + c - 1) mod c = ((h + Suc k) mod c + (c - 1)) mod c"
    using assms by simp
  also have "\<dots> = (h + Suc k + (c - 1)) mod c" by (simp add: mod_add_left_eq)
  also have "h + Suc k + (c - 1) = h + k + c" using assms by simp
  finally show ?thesis by simp
qed

lemma q_scan_holds:
  assumes "q_holds q es" "Suc k \<le> length es"
  shows "q_scan q (Fin cur) (Fin thr) is_low (Fin now) (Fin age) ((q_head q + k) mod q_capacity q) (Suc k)
         = map_option fin_pair (find (a_far_and_old cur thr is_low now age) (rev (take (Suc k) es)))"
  using assms(2)
proof (induction k)
  case 0
  then have l: "0 < length es" by (cases es) simp_all
  from q_holds_nth[OF assms(1) l] l show ?case
    by (cases es) (auto simp: a_far_and_old_def fin_pair_def Let_def dsub_def)
next
  case (Suc k)
  then have l: "Suc k < length es" by simp
  have c: "0 < q_capacity q" using assms(1) by (simp add: q_holds_def q_ok_def)
  have tk: "rev (take (Suc (Suc k)) es) = es ! Suc k # rev (take (Suc k) es)"
    using l by (simp add: take_Suc_conv_app_nth)
  note n = q_holds_nth[OF assms(1) l]
  show ?case
    unfolding tk using Suc.IH l n ring_step_back[OF c, of "q_head q" k]
    by (auto simp: a_far_and_old_def fin_pair_def Let_def dsub_def)
qed

lemma find_candidate_holds:
  assumes "q_holds q es"
  shows "find_candidate q (Fin cur) (Fin thr) is_low (Fin now) (Fin age)
         = map_option fin_pair (a_find cur thr is_low now age es)"
proof -
  have sz: "q_size q = length es"
    using assms by (metis length_q_entries length_map q_holds_def)
  have c: "0 < q_capacity q" using assms(1) by (simp add: q_holds_def q_ok_def)
  show ?thesis
  proof (cases "length es < 2")
    case True
    then have "butlast es = []" by (cases es) auto
    then show ?thesis using True sz by (simp add: find_candidate_def a_find_def)
  next
    case False
    then obtain k where k: "length es = Suc (Suc k)"
      by (metis Suc_lessI less_2_cases_iff not_less_eq not0_implies_Suc numeral_2_eq_2 zero_less_Suc)
    have idx: "((q_head q + q_size q - 1) mod q_capacity q + q_capacity q - 1) mod q_capacity q
        = (q_head q + k) mod q_capacity q"
      using ring_step_back[OF c, of "q_head q" k] sz k by simp
    have bl: "butlast es = take (Suc k) es" using k by (simp add: butlast_conv_take)
    show ?thesis
      using q_scan_holds[OF assms, of k cur thr is_low now age] False sz k
      unfolding find_candidate_def a_find_def Let_def idx bl by simp
  qed
qed

section \<open>Threshold-reversion metric\<close>

lemma tr_find_reference_flatten [simp]:
  "tr_find_reference (tr_flatten s) cur now = tr_find_reference s cur now"
  by (simp add: tr_find_reference_def tr_flatten_def)

lemma tr_flatten_idem [simp]: "tr_flatten (tr_flatten s) = tr_flatten s"
  by (simp add: tr_flatten_def)

lemma tr_flatten_fields [simp]:
  "position (tr_flatten s) = 0" "has_ref (tr_flatten s) = False"
  "threshold (tr_flatten s) = threshold s" "pip_size (tr_flatten s) = pip_size s"
  "tp_distance (tr_flatten s) = tp_distance s" "sl_distance (tr_flatten s) = sl_distance s"
  "min_recency (tr_flatten s) = min_recency s" "lookback_seconds (tr_flatten s) = lookback_seconds s"
  "max_q (tr_flatten s) = max_q s" "min_q (tr_flatten s) = min_q s"
  by (simp_all add: tr_flatten_def)

lemma tr_observe_fields [simp]:
  "position (tr_observe m tick) = position m" "has_ref (tr_observe m tick) = has_ref m"
  "p_ref (tr_observe m tick) = p_ref m"
  "threshold (tr_observe m tick) = threshold m" "pip_size (tr_observe m tick) = pip_size m"
  "tp_distance (tr_observe m tick) = tp_distance m" "sl_distance (tr_observe m tick) = sl_distance m"
  "min_recency (tr_observe m tick) = min_recency m"
  "lookback_seconds (tr_observe m tick) = lookback_seconds m"
  by (simp_all add: tr_observe_def tr_append_tick_def Let_def)

lemma tr_settle_fields:
  "threshold (fst (tr_settle m tick)) = threshold m"
  "pip_size (fst (tr_settle m tick)) = pip_size m"
  "tp_distance (fst (tr_settle m tick)) = tp_distance m"
  "sl_distance (fst (tr_settle m tick)) = sl_distance m"
  "min_recency (fst (tr_settle m tick)) = min_recency m"
  "lookback_seconds (fst (tr_settle m tick)) = lookback_seconds m"
  "max_q (fst (tr_settle m tick)) = max_q (tr_observe m tick)"
  "min_q (fst (tr_settle m tick)) = min_q (tr_observe m tick)"
  by (auto simp: tr_settle_def Let_def split: option.splits prod.splits)

lemma tr_settle_candidate:
  "snd (tr_settle m tick) = tr_find_reference (tr_observe m tick) (mid tick) (timestamp tick)"
  by (auto simp: tr_settle_def Let_def split: option.splits prod.splits)

lemma tr_settle_completed:
  assumes "position m \<noteq> 0" "has_ref m" "dle (fabs (dsub (mid tick) (p_ref m))) (pip_size m)"
  shows "tr_settle m tick =
     (tr_flatten (tr_observe m tick),
      tr_find_reference (tr_flatten (tr_observe m tick)) (mid tick) (timestamp tick))"
  using assms by (auto simp: tr_settle_def Let_def split: option.splits prod.splits)

lemma dle_flip_any: "dle (dsub a b) (dneg th) \<longleftrightarrow> dle th (dsub b a)"
  by (cases a; cases b; cases th) (auto simp: dsub_def)

lemma dle_exclusive_pos: "0 < \<theta> \<Longrightarrow> dle (Fin \<theta>) (dsub a b) \<Longrightarrow> \<not> dle (Fin \<theta>) (dsub b a)"
  by (cases a; cases b) (auto simp: dsub_def)

lemma tr_maybe_open_any:
  assumes "position s = 0"
  shows "(position (tr_maybe_open s rp rt cur now) = - 1 \<longleftrightarrow> dle (threshold s) (dsub cur rp))"
    "(position (tr_maybe_open s rp rt cur now) = 1
        \<longleftrightarrow> \<not> dle (threshold s) (dsub cur rp) \<and> dle (threshold s) (dsub rp cur))"
    "position (tr_maybe_open s rp rt cur now) = - 1 \<Longrightarrow>
       tp_price (tr_maybe_open s rp rt cur now) = dsub cur (tp_distance s) \<and>
       sl_price (tr_maybe_open s rp rt cur now) = dadd cur (sl_distance s) \<and>
       p_ref (tr_maybe_open s rp rt cur now) = rp \<and> p_ref_time (tr_maybe_open s rp rt cur now) = rt \<and>
       has_ref (tr_maybe_open s rp rt cur now) \<and> position_open_time (tr_maybe_open s rp rt cur now) = now"
    "position (tr_maybe_open s rp rt cur now) = 1 \<Longrightarrow>
       tp_price (tr_maybe_open s rp rt cur now) = dadd cur (tp_distance s) \<and>
       sl_price (tr_maybe_open s rp rt cur now) = dsub cur (sl_distance s) \<and>
       p_ref (tr_maybe_open s rp rt cur now) = rp \<and> p_ref_time (tr_maybe_open s rp rt cur now) = rt \<and>
       has_ref (tr_maybe_open s rp rt cur now) \<and> position_open_time (tr_maybe_open s rp rt cur now) = now"
  using assms dle_flip_any[of cur rp "threshold s"]
  by (auto simp: tr_maybe_open_def Let_def tr_set_reference_def tr_set_trade_levels_def)

lemma q_scan_far:
  "q_scan q cur thr is_low now age idx r = Some (t, p) \<Longrightarrow>
     dle thr (if is_low then dsub cur p else dsub p cur)"
  by (induction r arbitrary: idx) (auto simp: Let_def split: if_splits)

lemma find_candidate_far:
  assumes "find_candidate q cur thr is_low now age = Some (t, p)"
  shows "dle thr (if is_low then dsub cur p else dsub p cur)"
proof -
  from assms obtain idx r where "q_scan q cur thr is_low now age idx r = Some (t, p)"
    by (auto simp: find_candidate_def Let_def split: if_splits)
  then show ?thesis by (rule q_scan_far)
qed

lemma tr_find_reference_far:
  assumes "tr_find_reference s cur now = Some (rt, rp)"
  shows "dle (threshold s) (dsub cur rp) \<or> dle (threshold s) (dsub rp cur)"
proof -
  let ?low = "find_candidate (min_q s) cur (threshold s) True now (min_recency s)"
  let ?high = "find_candidate (max_q s) cur (threshold s) False now (min_recency s)"
  from assms have "(\<exists>t. ?low = Some (t, rp)) \<or> (\<exists>t. ?high = Some (t, rp))"
    by (auto simp: tr_find_reference_def Let_def split: option.splits if_splits)
  then show ?thesis using find_candidate_far[of _ cur "threshold s" _ now "min_recency s" _ rp] by fastforce
qed

lemma tr_maybe_open_frame [simp]:
  "max_q (tr_maybe_open s rp rt cur now) = max_q s" "min_q (tr_maybe_open s rp rt cur now) = min_q s"
  "threshold (tr_maybe_open s rp rt cur now) = threshold s"
  "pip_size (tr_maybe_open s rp rt cur now) = pip_size s"
  "tp_distance (tr_maybe_open s rp rt cur now) = tp_distance s"
  "sl_distance (tr_maybe_open s rp rt cur now) = sl_distance s"
  "min_recency (tr_maybe_open s rp rt cur now) = min_recency s"
  "lookback_seconds (tr_maybe_open s rp rt cur now) = lookback_seconds s"
  by (simp_all add: tr_maybe_open_def Let_def tr_set_reference_def tr_set_trade_levels_def)

lemma tr_update_frame:
  "max_q (tr_update_from_struct m tick) = max_q (tr_observe m tick)"
  "min_q (tr_update_from_struct m tick) = min_q (tr_observe m tick)"
  "threshold (tr_update_from_struct m tick) = threshold m"
  "pip_size (tr_update_from_struct m tick) = pip_size m"
  "tp_distance (tr_update_from_struct m tick) = tp_distance m"
  "sl_distance (tr_update_from_struct m tick) = sl_distance m"
  "min_recency (tr_update_from_struct m tick) = min_recency m"
  "lookback_seconds (tr_update_from_struct m tick) = lookback_seconds m"
  using tr_settle_fields[of m tick]
  by (auto simp: tr_update_from_struct_def split: prod.splits option.splits)

lemma mid_tick_fields [simp]:
  "mid (mid_tick (t, p)) = Fin p" "timestamp (mid_tick (t, p)) = Fin t"
  by (simp_all add: mid_tick_def quote_tick_def)

lemma tr_observe_holds:
  assumes "tr_holds m hs ls"
  shows "tr_holds (tr_observe m (mid_tick (t, p)))
           (a_tick True (real_of_int (lookback_seconds m)) t p hs)
           (a_tick False (real_of_int (lookback_seconds m)) t p ls)"
proof -
  from assms have h: "q_holds (max_q m) hs" "q_holds (min_q m) ls" "is_max (max_q m)" "\<not> is_max (min_q m)"
    by (simp_all add: tr_holds_def)
  let ?c = "t - real_of_int (lookback_seconds m)"
  have mx: "max_q (tr_observe m (mid_tick (t, p))) = q_trim (q_append (max_q m) (Fin t) (Fin p)) (Fin ?c)"
    and mn: "min_q (tr_observe m (mid_tick (t, p))) = q_trim (q_append (min_q m) (Fin t) (Fin p)) (Fin ?c)"
    by (simp_all add: tr_observe_def tr_append_tick_def Let_def dsub_def)
  note a1 = q_append_holds[OF h(1), of t p] and a2 = q_append_holds[OF h(2), of t p]
  note t1 = q_trim_holds[OF a1(1), of ?c] and t2 = q_trim_holds[OF a2(1), of ?c]
  show ?thesis
    unfolding tr_holds_def mx mn a_tick_def
    using t1 t2 a1(2) a2(2) h(3,4) by simp
qed

lemma tr_find_reference_holds:
  assumes "tr_holds s hs ls" "threshold s = Fin \<theta>" "min_recency s = Fin \<rho>"
  shows "tr_find_reference s (Fin cur) (Fin now) = map_option fin_pair (a_reference cur \<theta> now \<rho> hs ls)"
proof -
  from assms(1) have h: "q_holds (max_q s) hs" "q_holds (min_q s) ls" by (simp_all add: tr_holds_def)
  show ?thesis
    unfolding tr_find_reference_def a_reference_def assms(2,3) Let_def
      find_candidate_holds[OF h(1)] find_candidate_holds[OF h(2)]
    by (auto simp: fin_pair_def split: option.splits)
qed

lemma tr_holds_init: "tr_holds (ThresholdReversionMetric_init nm lb thp pip tpp slp mr tt) [] []"
  by (simp add: tr_holds_def ThresholdReversionMetric_init_def q_holds_init)

lemma tr_holds_update:
  assumes "tr_holds m hs ls"
  shows "tr_holds (tr_update_from_struct m (mid_tick (t, p)))
           (a_tick True (real_of_int (lookback_seconds m)) t p hs)
           (a_tick False (real_of_int (lookback_seconds m)) t p ls)"
  using tr_observe_holds[OF assms, of t p]
  by (simp add: tr_holds_def tr_update_frame)

lemmas a_eval = a_tick_def a_pop_tail_def dominated_def a_reference_def a_find_def
  a_far_and_old_def fin_pair_def

lemma tr_feed_snoc: "tr_feed m (tms @ [tm]) = tr_update_from_struct (tr_feed m tms) (mid_tick tm)"
  by (simp add: tr_feed_def)

lemma tr_update_flat_any:
  assumes a1: "position (fst (tr_settle m tick)) = 0"
    and a2: "snd (tr_settle m tick) = Some (ref_time, ref_price)"
  shows "position (tr_update_from_struct m tick) = - 1 \<longleftrightarrow> dle (threshold m) (dsub (mid tick) ref_price)"
    "position (tr_update_from_struct m tick) = 1
       \<longleftrightarrow> \<not> dle (threshold m) (dsub (mid tick) ref_price) \<and> dle (threshold m) (dsub ref_price (mid tick))"
    "position (tr_update_from_struct m tick) = - 1 \<or> position (tr_update_from_struct m tick) = 1"
    "position (tr_update_from_struct m tick) = - 1 \<longrightarrow>
              tp_price (tr_update_from_struct m tick) = dsub (mid tick) (tp_distance m)
            \<and> sl_price (tr_update_from_struct m tick) = dadd (mid tick) (sl_distance m)"
    "position (tr_update_from_struct m tick) = 1 \<longrightarrow>
              tp_price (tr_update_from_struct m tick) = dadd (mid tick) (tp_distance m)
            \<and> sl_price (tr_update_from_struct m tick) = dsub (mid tick) (sl_distance m)"
    "p_ref (tr_update_from_struct m tick) = ref_price"
    "p_ref_time (tr_update_from_struct m tick) = ref_time"
proof -
  define s where "s = fst (tr_settle m tick)"
  have st: "tr_settle m tick = (s, Some (ref_time, ref_price))"
    using a2 s_def by (cases "tr_settle m tick") simp
  have up: "tr_update_from_struct m tick = tr_maybe_open s ref_price ref_time (mid tick) (timestamp tick)"
    unfolding tr_update_from_struct_def st using a1 s_def by simp
  have ths: "position s = 0" "tp_distance s = tp_distance m"
    "sl_distance s = sl_distance m" "threshold s = threshold m"
    using a1 tr_settle_fields[of m tick] by (simp_all add: s_def)
  note o = tr_maybe_open_any[OF ths(1), of ref_price ref_time "mid tick" "timestamp tick"]
  have "tr_find_reference (tr_observe m tick) (mid tick) (timestamp tick) = Some (ref_time, ref_price)"
    using a2 tr_settle_candidate[of m tick] by simp
  from tr_find_reference_far[OF this]
  have far: "dle (threshold m) (dsub (mid tick) ref_price) \<or> dle (threshold m) (dsub ref_price (mid tick))"
    by simp
  show c1: "position (tr_update_from_struct m tick) = - 1 \<longleftrightarrow> dle (threshold m) (dsub (mid tick) ref_price)"
    unfolding up using o(1) ths(4) by simp
  show c2: "position (tr_update_from_struct m tick) = 1
       \<longleftrightarrow> \<not> dle (threshold m) (dsub (mid tick) ref_price) \<and> dle (threshold m) (dsub ref_price (mid tick))"
    unfolding up using o(2) ths(4) by simp
  show opens: "position (tr_update_from_struct m tick) = - 1 \<or> position (tr_update_from_struct m tick) = 1"
    using c1 c2 far by blast
  show "position (tr_update_from_struct m tick) = - 1 \<longrightarrow>
              tp_price (tr_update_from_struct m tick) = dsub (mid tick) (tp_distance m)
            \<and> sl_price (tr_update_from_struct m tick) = dadd (mid tick) (sl_distance m)"
    unfolding up using o(3) ths(2,3) by simp
  show "position (tr_update_from_struct m tick) = 1 \<longrightarrow>
              tp_price (tr_update_from_struct m tick) = dadd (mid tick) (tp_distance m)
            \<and> sl_price (tr_update_from_struct m tick) = dsub (mid tick) (sl_distance m)"
    unfolding up using o(4) ths(2,3) by simp
  show "p_ref (tr_update_from_struct m tick) = ref_price"
    using opens o(3,4) unfolding up by blast
  show "p_ref_time (tr_update_from_struct m tick) = ref_time"
    using opens o(3,4) unfolding up by blast
qed

lemma tr_positive_exclusive:
  assumes "threshold m = Fin \<theta>" "0 < \<theta>" "dle (threshold m) (dsub ref_price cur)"
  shows "\<not> dle (threshold m) (dsub cur ref_price)"
  using assms dle_exclusive_pos[of \<theta> ref_price cur] by auto

lemma tr_held_has_ref:
  assumes "position m \<noteq> 0 \<longrightarrow> has_ref m"
  shows "position (tr_update_from_struct m tick) \<noteq> 0 \<longrightarrow> has_ref (tr_update_from_struct m tick)"
  using assms
  by (auto simp: tr_update_from_struct_def tr_settle_def Let_def tr_maybe_open_def
      tr_set_reference_def tr_set_trade_levels_def split: option.splits prod.splits if_splits)

text \<open>The reversal over the prices 1.5, 1.25, 1.5, tick by tick, and the run under a negative threshold.\<close>

lemma config_quarter_update: "config_quarter m \<Longrightarrow> config_quarter (tr_update_from_struct m tick)"
  by (simp add: config_quarter_def tr_update_frame)

lemma quarter_first:
  assumes "config_quarter m" "tr_holds m [] []" "position m = 0" "\<not> has_ref m"
  shows "tr_holds (tr_update_from_struct m (mid_tick (0, 3 / 2))) [(0, 3 / 2)] [(0, 3 / 2)]"
    "position (tr_update_from_struct m (mid_tick (0, 3 / 2))) = 0"
    "\<not> has_ref (tr_update_from_struct m (mid_tick (0, 3 / 2)))"
proof -
  let ?tick = "mid_tick (0, 3 / 2)"
  from assms(1) have c: "threshold m = Fin (1 / 4)" "min_recency m = Fin 0" "lookback_seconds m = 60"
    by (simp_all add: config_quarter_def)
  have obs: "tr_holds (tr_observe m ?tick) [(0, 3 / 2)] [(0, 3 / 2)]"
    using tr_observe_holds[OF assms(2), of 0 "3 / 2"] by (simp add: c a_eval)
  have ref: "tr_find_reference (tr_observe m ?tick) (Fin (3 / 2)) (Fin 0) = None"
    using tr_find_reference_holds[OF obs, of "1 / 4" 0 "3 / 2" 0] c by (simp add: a_eval)
  show "tr_holds (tr_update_from_struct m ?tick) [(0, 3 / 2)] [(0, 3 / 2)]"
    using obs by (simp add: tr_holds_def tr_update_frame)
  show "position (tr_update_from_struct m ?tick) = 0" "\<not> has_ref (tr_update_from_struct m ?tick)"
    using assms(3,4) by (simp_all add: tr_update_from_struct_def tr_settle_def Let_def ref)
qed

lemma quarter_second:
  assumes "config_quarter m" "tr_holds m [(0, 3 / 2)] [(0, 3 / 2)]" "position m = 0" "\<not> has_ref m"
  shows "tr_holds (tr_update_from_struct m (mid_tick (1, 5 / 4)))
            [(0, 3 / 2), (1, 5 / 4)] [(1, 5 / 4)]"
    "position (tr_update_from_struct m (mid_tick (1, 5 / 4))) = 1"
    "has_ref (tr_update_from_struct m (mid_tick (1, 5 / 4)))"
    "p_ref (tr_update_from_struct m (mid_tick (1, 5 / 4))) = Fin (3 / 2)"
proof -
  let ?tick = "mid_tick (1, 5 / 4)"
  from assms(1) have c: "threshold m = Fin (1 / 4)" "min_recency m = Fin 0" "lookback_seconds m = 60"
    by (simp_all add: config_quarter_def)
  have obs: "tr_holds (tr_observe m ?tick) [(0, 3 / 2), (1, 5 / 4)] [(1, 5 / 4)]"
    using tr_observe_holds[OF assms(2), of 1 "5 / 4"] by (simp add: c a_eval)
  have ref: "tr_find_reference (tr_observe m ?tick) (Fin (5 / 4)) (Fin 1) = Some (Fin 0, Fin (3 / 2))"
    using tr_find_reference_holds[OF obs, of "1 / 4" 0 "5 / 4" 1] c by (simp add: a_eval)
  show "tr_holds (tr_update_from_struct m ?tick) [(0, 3 / 2), (1, 5 / 4)] [(1, 5 / 4)]"
    using obs by (simp add: tr_holds_def tr_update_frame)
  show "position (tr_update_from_struct m ?tick) = 1" "has_ref (tr_update_from_struct m ?tick)"
    "p_ref (tr_update_from_struct m ?tick) = Fin (3 / 2)"
    using assms(3,4) c
    by (simp_all add: tr_update_from_struct_def tr_settle_def Let_def ref tr_maybe_open_def
        tr_set_reference_def tr_set_trade_levels_def dsub_def)
qed

lemma quarter_third:
  assumes "config_quarter m" "tr_holds m [(0, 3 / 2), (1, 5 / 4)] [(1, 5 / 4)]"
    "position m = 1" "has_ref m" "p_ref m = Fin (3 / 2)"
  shows "tr_find_reference (tr_flatten (tr_observe m (mid_tick (2, 3 / 2)))) (Fin (3 / 2)) (Fin 2)
       = Some (Fin 1, Fin (5 / 4))"
    "position (tr_observe m (mid_tick (2, 3 / 2))) = 1"
    "has_ref (tr_observe m (mid_tick (2, 3 / 2)))"
proof -
  let ?tick = "mid_tick (2, 3 / 2)"
  from assms(1) have c: "threshold m = Fin (1 / 4)" "min_recency m = Fin 0" "lookback_seconds m = 60"
    by (simp_all add: config_quarter_def)
  have obs: "tr_holds (tr_observe m ?tick) [(2, 3 / 2)] [(1, 5 / 4), (2, 3 / 2)]"
    using tr_observe_holds[OF assms(2), of 2 "3 / 2"] by (simp add: c a_eval)
  have fo: "tr_find_reference (tr_observe m ?tick) (Fin (3 / 2)) (Fin 2) = Some (Fin 1, Fin (5 / 4))"
    using tr_find_reference_holds[OF obs, of "1 / 4" 0 "3 / 2" 2] c tr_observe_fields[of m ?tick]
    by (simp add: a_eval)
  show "tr_find_reference (tr_flatten (tr_observe m ?tick)) (Fin (3 / 2)) (Fin 2) = Some (Fin 1, Fin (5 / 4))"
    using fo by (simp add: tr_find_reference_flatten)
  show "position (tr_observe m ?tick) = 1" "has_ref (tr_observe m ?tick)"
    using assms(3,4) tr_observe_fields[of m ?tick] by simp_all
qed


lemma quarter_init: "config_quarter reversion_quarter" "tr_holds reversion_quarter [] []"
  "position reversion_quarter = 0" "\<not> has_ref reversion_quarter"
  by (simp_all add: reversion_quarter_def tr_holds_init)
     (simp_all add: config_quarter_def ThresholdReversionMetric_init_def)

lemma quarter_two_ticks:
  "config_quarter (tr_feed reversion_quarter [(0, 3 / 2), (1, 5 / 4)])"
  "tr_holds (tr_feed reversion_quarter [(0, 3 / 2), (1, 5 / 4)]) [(0, 3 / 2), (1, 5 / 4)] [(1, 5 / 4)]"
  "position (tr_feed reversion_quarter [(0, 3 / 2), (1, 5 / 4)]) = 1"
  "has_ref (tr_feed reversion_quarter [(0, 3 / 2), (1, 5 / 4)])"
  "p_ref (tr_feed reversion_quarter [(0, 3 / 2), (1, 5 / 4)]) = Fin (3 / 2)"
proof -
  let ?m1 = "tr_update_from_struct reversion_quarter (mid_tick (0, 3 / 2))"
  note f = quarter_first[OF quarter_init]
  have c1: "config_quarter ?m1" by (rule config_quarter_update[OF quarter_init(1)])
  note s = quarter_second[OF c1 f]
  have e: "tr_feed reversion_quarter [(0, 3 / 2), (1, 5 / 4)]
      = tr_update_from_struct ?m1 (mid_tick (1, 5 / 4))"
    by (simp add: tr_feed_def)
  show "config_quarter (tr_feed reversion_quarter [(0, 3 / 2), (1, 5 / 4)])"
    unfolding e by (rule config_quarter_update[OF c1])
  show "tr_holds (tr_feed reversion_quarter [(0, 3 / 2), (1, 5 / 4)]) [(0, 3 / 2), (1, 5 / 4)] [(1, 5 / 4)]"
    "position (tr_feed reversion_quarter [(0, 3 / 2), (1, 5 / 4)]) = 1"
    "has_ref (tr_feed reversion_quarter [(0, 3 / 2), (1, 5 / 4)])"
    "p_ref (tr_feed reversion_quarter [(0, 3 / 2), (1, 5 / 4)]) = Fin (3 / 2)"
    unfolding e using s by simp_all
qed

lemma quarter_returns:
  "position (tr_feed reversion_quarter [(0, 3 / 2), (1, 5 / 4)]) \<noteq> 0
   \<and> has_ref (tr_feed reversion_quarter [(0, 3 / 2), (1, 5 / 4)])
   \<and> dle (fabs (dsub (mid (mid_tick (2, 3 / 2))) (p_ref (tr_feed reversion_quarter [(0, 3 / 2), (1, 5 / 4)]))))
          (pip_size (tr_feed reversion_quarter [(0, 3 / 2), (1, 5 / 4)]))"
proof -
  note t = quarter_two_ticks
  have "pip_size (tr_feed reversion_quarter [(0, 3 / 2), (1, 5 / 4)]) = Fin (1 / 16)"
    using t(1) by (simp add: config_quarter_def)
  then show ?thesis using t(3,4,5) by (simp add: dsub_def)
qed

lemma quarter_settled:
  "tr_settle (tr_feed reversion_quarter [(0, 3 / 2), (1, 5 / 4)]) (mid_tick (2, 3 / 2))
     = (tr_flatten (tr_observe (tr_feed reversion_quarter [(0, 3 / 2), (1, 5 / 4)]) (mid_tick (2, 3 / 2))),
        Some (Fin 1, Fin (5 / 4)))"
proof -
  let ?m = "tr_feed reversion_quarter [(0, 3 / 2), (1, 5 / 4)]"
  let ?tick = "mid_tick (2, 3 / 2)"
  note t = quarter_two_ticks
  note r = quarter_returns
  have "tr_settle ?m ?tick =
     (tr_flatten (tr_observe ?m ?tick),
      tr_find_reference (tr_flatten (tr_observe ?m ?tick)) (mid ?tick) (timestamp ?tick))"
    using r by (intro tr_settle_completed) simp_all
  then show ?thesis using quarter_third(1)[OF t] by simp
qed

lemma quarter_reopens:
  "position (tr_feed reversion_quarter ([(0, 3 / 2), (1, 5 / 4)] @ [(2, 3 / 2)])) = - 1"
proof -
  let ?m = "tr_feed reversion_quarter [(0, 3 / 2), (1, 5 / 4)]"
  let ?tick = "mid_tick (2, 3 / 2)"
  have c: "threshold ?m = Fin (1 / 4)" using quarter_two_ticks(1) by (simp add: config_quarter_def)
  have "position (fst (tr_settle ?m ?tick)) = 0" "snd (tr_settle ?m ?tick) = Some (Fin 1, Fin (5 / 4))"
    unfolding quarter_settled by simp_all
  from tr_update_flat_any(1)[OF this]
  show ?thesis unfolding tr_feed_snoc by (simp add: c dsub_def)
qed

lemma negative_init: "config_negative reversion_negative" "tr_holds reversion_negative [] []"
  "position reversion_negative = 0" "\<not> has_ref reversion_negative"
  by (simp_all add: reversion_negative_def tr_holds_init)
     (simp_all add: config_negative_def ThresholdReversionMetric_init_def)

lemma negative_first:
  "config_negative (tr_feed reversion_negative [(0, 10)])"
  "tr_holds (tr_feed reversion_negative [(0, 10)]) [(0, 10)] [(0, 10)]"
  "position (tr_feed reversion_negative [(0, 10)]) = 0"
  "\<not> has_ref (tr_feed reversion_negative [(0, 10)])"
proof -
  let ?m = reversion_negative
  let ?tick = "mid_tick (0, 10)"
  note i = negative_init
  from i(1) have c: "threshold ?m = Fin (- 1)" "min_recency ?m = Fin 0" "lookback_seconds ?m = 60"
    by (simp_all add: config_negative_def)
  have e: "tr_feed ?m [(0, 10)] = tr_update_from_struct ?m ?tick" by (simp add: tr_feed_def)
  have obs: "tr_holds (tr_observe ?m ?tick) [(0, 10)] [(0, 10)]"
    using tr_observe_holds[OF i(2), of 0 10] by (simp add: c a_eval)
  have ref: "tr_find_reference (tr_observe ?m ?tick) (Fin 10) (Fin 0) = None"
    using tr_find_reference_holds[OF obs, of "- 1" 0 10 0] c by (simp add: a_eval)
  show "config_negative (tr_feed ?m [(0, 10)])"
    unfolding e using i(1) by (simp add: config_negative_def tr_update_frame)
  show "tr_holds (tr_feed ?m [(0, 10)]) [(0, 10)] [(0, 10)]"
    unfolding e using obs by (simp add: tr_holds_def tr_update_frame)
  show "position (tr_feed ?m [(0, 10)]) = 0" "\<not> has_ref (tr_feed ?m [(0, 10)])"
    unfolding e using i(3,4) by (simp_all add: tr_update_from_struct_def tr_settle_def Let_def ref)
qed

lemma negative_settled:
  "tr_settle (tr_feed reversion_negative [(0, 10)]) (mid_tick (1, 21 / 2))
     = (tr_observe (tr_feed reversion_negative [(0, 10)]) (mid_tick (1, 21 / 2)), Some (Fin 0, Fin 10))"
proof -
  let ?m = "tr_feed reversion_negative [(0, 10)]"
  let ?tick = "mid_tick (1, 21 / 2)"
  note f = negative_first
  from f(1) have c: "threshold ?m = Fin (- 1)" "min_recency ?m = Fin 0" "lookback_seconds ?m = 60"
    by (simp_all add: config_negative_def)
  have obs: "tr_holds (tr_observe ?m ?tick) [(1, 21 / 2)] [(0, 10), (1, 21 / 2)]"
    using tr_observe_holds[OF f(2), of 1 "21 / 2"] by (simp add: c a_eval)
  have ref: "tr_find_reference (tr_observe ?m ?tick) (Fin (21 / 2)) (Fin 1) = Some (Fin 0, Fin 10)"
    using tr_find_reference_holds[OF obs, of "- 1" 0 "21 / 2" 1] c by (simp add: a_eval)
  show ?thesis
    using f(3,4) by (simp add: tr_settle_def Let_def ref)
qed

text \<open>
  C2 (amended). On every \<open>ThresholdReversionMetric\<close> update at tick \<open>(t, mid)\<close>:
  \<^item> if a position is held (the metric then has its reference, \<open>tr_held_has_ref\<close>) and
    \<open>|mid - p_ref| \<le> pip_size\<close>, the metric is flattened and the candidate handed on is the
    search run again on the flattened metric;
  \<^item> afterwards, whenever the metric is flat and a candidate \<open>(ref_time, ref_price)\<close> was
    found, it always opens: short exactly when \<open>mid - ref_price \<ge> threshold\<close>, and long
    exactly when that fails and \<open>ref_price - mid \<ge> threshold\<close> (the short test comes first);
    for a positive threshold the two conditions exclude each other and long is exactly
    \<open>ref_price - mid \<ge> threshold\<close>; short sets \<open>tp_price = mid - tp_distance\<close> and
    \<open>sl_price = mid + sl_distance\<close>, long the mirror image, and the candidate becomes the
    reference;
  \<^item> the update that flattens a completed reversion can open the opposite position: over
    the prices 1.5, 1.25, 1.5 the metric is long on a reference at most a pip away and short
    after the tick.
\<close>

theorem threshold_reversion_update:
  "(position m \<noteq> 0 \<and> has_ref m \<and> dle (fabs (dsub (mid tick) (p_ref m))) (pip_size m) \<longrightarrow>
        tr_settle m tick =
          (tr_flatten (tr_observe m tick),
           tr_find_reference (tr_flatten (tr_observe m tick)) (mid tick) (timestamp tick)))
     \<and> (position (fst (tr_settle m tick)) = 0 \<and> snd (tr_settle m tick) = Some (ref_time, ref_price) \<longrightarrow>
          (position (tr_update_from_struct m tick) = - 1
             \<longleftrightarrow> dle (threshold m) (dsub (mid tick) ref_price))
        \<and> (position (tr_update_from_struct m tick) = 1
             \<longleftrightarrow> \<not> dle (threshold m) (dsub (mid tick) ref_price)
                 \<and> dle (threshold m) (dsub ref_price (mid tick)))
        \<and> ((\<exists>\<theta>. threshold m = Fin \<theta> \<and> 0 < \<theta>) \<longrightarrow>
              (position (tr_update_from_struct m tick) = 1
                 \<longleftrightarrow> dle (threshold m) (dsub ref_price (mid tick))))
        \<and> (position (tr_update_from_struct m tick) = - 1 \<or> position (tr_update_from_struct m tick) = 1)
        \<and> (position (tr_update_from_struct m tick) = - 1 \<longrightarrow>
              tp_price (tr_update_from_struct m tick) = dsub (mid tick) (tp_distance m)
            \<and> sl_price (tr_update_from_struct m tick) = dadd (mid tick) (sl_distance m))
        \<and> (position (tr_update_from_struct m tick) = 1 \<longrightarrow>
              tp_price (tr_update_from_struct m tick) = dadd (mid tick) (tp_distance m)
            \<and> sl_price (tr_update_from_struct m tick) = dsub (mid tick) (sl_distance m))
        \<and> p_ref (tr_update_from_struct m tick) = ref_price
        \<and> p_ref_time (tr_update_from_struct m tick) = ref_time)
     \<and> (\<exists>tms tm.
          position (tr_feed reversion_quarter tms) = 1 \<and> has_ref (tr_feed reversion_quarter tms)
        \<and> dle (fabs (dsub (mid (mid_tick tm)) (p_ref (tr_feed reversion_quarter tms))))
              (pip_size (tr_feed reversion_quarter tms))
        \<and> position (tr_feed reversion_quarter (tms @ [tm])) = - 1)"
proof -
  have A: "position m \<noteq> 0 \<and> has_ref m \<and> dle (fabs (dsub (mid tick) (p_ref m))) (pip_size m) \<longrightarrow>
        tr_settle m tick =
          (tr_flatten (tr_observe m tick),
           tr_find_reference (tr_flatten (tr_observe m tick)) (mid tick) (timestamp tick))"
    using tr_settle_completed[of m tick] by blast
  have C: "\<exists>tms tm.
          position (tr_feed reversion_quarter tms) = 1 \<and> has_ref (tr_feed reversion_quarter tms)
        \<and> dle (fabs (dsub (mid (mid_tick tm)) (p_ref (tr_feed reversion_quarter tms))))
              (pip_size (tr_feed reversion_quarter tms))
        \<and> position (tr_feed reversion_quarter (tms @ [tm])) = - 1"
    using quarter_returns quarter_two_ticks(3) quarter_reopens
    by (intro exI[of _ "[(0, 3 / 2), (1, 5 / 4)]"] exI[of _ "(2, 3 / 2)"]) blast
  note B = tr_update_flat_any[of m tick ref_time ref_price]
  have P: "(\<exists>\<theta>. threshold m = Fin \<theta> \<and> 0 < \<theta>) \<longrightarrow>
              (position (tr_update_from_struct m tick) = 1
                 \<longleftrightarrow> dle (threshold m) (dsub ref_price (mid tick)))"
    if "position (fst (tr_settle m tick)) = 0" "snd (tr_settle m tick) = Some (ref_time, ref_price)"
    using B(2)[OF that] tr_positive_exclusive[of m _ ref_price "mid tick"] by blast
  show ?thesis
    apply (rule conjI)
     apply (rule A)
    apply (rule conjI)
     apply (rule impI)
     apply (erule conjE)
     apply (intro conjI)
             apply (erule (1) B(1))
            apply (erule (1) B(2))
           apply (erule (1) P)
          apply (erule (1) B(3))
         apply (erule (1) B(4))
        apply (erule (1) B(5))
       apply (erule (1) B(6))
      apply (erule (1) B(7))
    apply (rule C)
    done
qed

text \<open>
  The reversal at its third tick: mid falls from 1.5 to 1.25 (the metric goes long on the
  high at 1.5), then returns to 1.5: the long is flattened and a short opens on the low at
  1.25, with take-profit 1.25 and stop-loss 1.75.
\<close>

theorem threshold_reversion_update_witness:
  "position (tr_feed reversion_quarter [(0, 3 / 2), (1, 5 / 4)]) = 1
   \<and> position (tr_update_from_struct (tr_feed reversion_quarter [(0, 3 / 2), (1, 5 / 4)]) (mid_tick (2, 3 / 2))) = - 1
   \<and> tp_price (tr_update_from_struct (tr_feed reversion_quarter [(0, 3 / 2), (1, 5 / 4)]) (mid_tick (2, 3 / 2)))
        = Fin (5 / 4)
   \<and> sl_price (tr_update_from_struct (tr_feed reversion_quarter [(0, 3 / 2), (1, 5 / 4)]) (mid_tick (2, 3 / 2)))
        = Fin (7 / 4)
   \<and> \<not> dle (threshold (tr_feed reversion_quarter [(0, 3 / 2), (1, 5 / 4)]))
           (dsub (Fin (5 / 4)) (mid (mid_tick (2, 3 / 2))))"
proof -
  let ?m = "tr_feed reversion_quarter [(0, 3 / 2), (1, 5 / 4)]"
  let ?tick = "mid_tick (2, 3 / 2)"
  note t = quarter_two_ticks
  have c: "threshold ?m = Fin (1 / 4)" "pip_size ?m = Fin (1 / 16)"
    "tp_distance ?m = Fin (1 / 4)" "sl_distance ?m = Fin (1 / 4)"
    using t(1) by (simp_all add: config_quarter_def)
  note th = threshold_reversion_update[of ?m ?tick "Fin 1" "Fin (5 / 4)"]
  have held: "position ?m \<noteq> 0 \<and> has_ref ?m \<and> dle (fabs (dsub (mid ?tick) (p_ref ?m))) (pip_size ?m)"
    by (rule quarter_returns)
  with th have st: "tr_settle ?m ?tick =
          (tr_flatten (tr_observe ?m ?tick),
           tr_find_reference (tr_flatten (tr_observe ?m ?tick)) (mid ?tick) (timestamp ?tick))"
    by blast
  have flat: "position (fst (tr_settle ?m ?tick)) = 0 \<and> snd (tr_settle ?m ?tick) = Some (Fin 1, Fin (5 / 4))"
    unfolding st using quarter_third(1)[OF t] by simp
  with th have "position (tr_update_from_struct ?m ?tick) = - 1 \<longleftrightarrow> dle (threshold ?m) (dsub (mid ?tick) (Fin (5 / 4)))"
    and lv: "position (tr_update_from_struct ?m ?tick) = - 1 \<longrightarrow>
              tp_price (tr_update_from_struct ?m ?tick) = dsub (mid ?tick) (tp_distance ?m)
            \<and> sl_price (tr_update_from_struct ?m ?tick) = dadd (mid ?tick) (sl_distance ?m)"
    by blast+
  then have p: "position (tr_update_from_struct ?m ?tick) = - 1" by (simp add: c dsub_def)
  with lv have l: "tp_price (tr_update_from_struct ?m ?tick) = Fin (5 / 4)"
    "sl_price (tr_update_from_struct ?m ?tick) = Fin (7 / 4)"
    by (simp_all add: c dsub_def)
  have "threshold ?m = Fin (1 / 4) \<and> (0::real) < 1 / 4" using c(1) by simp
  then have "\<exists>\<theta>. threshold ?m = Fin \<theta> \<and> 0 < \<theta>" by (rule exI)
  with th flat have "position (tr_update_from_struct ?m ?tick) = 1
      \<longleftrightarrow> dle (threshold ?m) (dsub (Fin (5 / 4)) (mid ?tick))"
    by blast
  with p have "\<not> dle (threshold ?m) (dsub (Fin (5 / 4)) (mid ?tick))" by simp
  with p l t(3) show ?thesis by simp
qed

text \<open>
  Under the threshold \<open>-1\<close>, after the ticks \<open>(0, 10)\<close> and then \<open>(1, 10.5)\<close>: the metric is
  flat, the candidate is \<open>(0, 10)\<close>, and \<open>ref_price - mid = -0.5 \<ge> threshold\<close> holds; so
  does \<open>mid - ref_price = 0.5 \<ge> threshold\<close>, which \<open>_maybe_open\<close> tests first, and the
  metric opens short, not long.
\<close>

theorem threshold_reversion_negative_counterexample:
  "position (fst (tr_settle (tr_feed reversion_negative [(0, 10)]) (mid_tick (1, 21 / 2)))) = 0
   \<and> snd (tr_settle (tr_feed reversion_negative [(0, 10)]) (mid_tick (1, 21 / 2))) = Some (Fin 0, Fin 10)
   \<and> dle (threshold (tr_feed reversion_negative [(0, 10)])) (dsub (Fin 10) (mid (mid_tick (1, 21 / 2))))
   \<and> position (tr_update_from_struct (tr_feed reversion_negative [(0, 10)]) (mid_tick (1, 21 / 2))) \<noteq> 1
   \<and> position (tr_update_from_struct (tr_feed reversion_negative [(0, 10)]) (mid_tick (1, 21 / 2))) = - 1"
proof -
  let ?m = "tr_feed reversion_negative [(0, 10)]"
  let ?tick = "mid_tick (1, 21 / 2)"
  have c: "threshold ?m = Fin (- 1)" using negative_first(1) by (simp add: config_negative_def)
  have s: "position (fst (tr_settle ?m ?tick)) = 0" "snd (tr_settle ?m ?tick) = Some (Fin 0, Fin 10)"
    unfolding negative_settled using negative_first(3) by simp_all
  have p: "position (tr_update_from_struct ?m ?tick) = - 1"
    using tr_update_flat_any(1)[OF s] by (simp add: c dsub_def)
  have "dle (threshold ?m) (dsub (Fin 10) (mid ?tick))" by (simp add: c dsub_def)
  with s p show ?thesis by simp
qed

section \<open>Metrics manager\<close>

lemma foldl_dict_pop:
  "foldl dict_pop d xs = filter (\<lambda>e. fst e \<notin> set xs) d"
proof (induction xs arbitrary: d)
  case Nil
  then show ?case by simp
next
  case (Cons x xs)
  show ?case unfolding foldl_Cons Cons.IH
    by (auto simp: dict_pop_def intro: filter_cong)
qed

lemma foldl_dict_pop_order:
  "set xs = set ys \<Longrightarrow> foldl dict_pop d xs = foldl dict_pop d ys"
  by (simp add: foldl_dict_pop)

lemma update_metric_order:
  assumes "\<And>xs. set (order xs) = set xs"
  shows "update_metric order tick mgr i = update_metric (\<lambda>xs. xs) tick mgr i"
proof -
  have pop: "foldl dict_pop d (order ys) = foldl dict_pop d ys" for d :: "(string \<times> 'c option) list" and ys
    by (rule foldl_dict_pop_order) (rule assms)
  show ?thesis unfolding update_metric_def Let_def pop ..
qed

lemma update_all_order:
  assumes "\<And>i xs. set (order i xs) = set xs"
  shows "update_all order mgr tick = update_all (\<lambda>i xs. xs) mgr tick"
proof -
  have "update_metric (order i) tick m i = update_metric (\<lambda>xs. xs) tick m i"
    for m :: "('a, 'b) MetricsManager" and i
    by (rule update_metric_order) (rule assms)
  then have "(\<lambda>mgr i. update_metric (order i) tick mgr i) = (\<lambda>(mgr :: ('a, 'b) MetricsManager) i. update_metric (\<lambda>xs. xs) tick mgr i)"
    by (intro ext)
  then show ?thesis unfolding update_all_def by simp
qed

lemma run_snapshots_order:
  assumes "order_ok order"
  shows "run_snapshots order n mgr ticks = run_snapshots (\<lambda>n i xs. xs) n mgr ticks"
proof (induction ticks arbitrary: n mgr)
  case Nil
  then show ?case by simp
next
  case (Cons tick ticks)
  have "update_all (order n) mgr tick = update_all (\<lambda>i xs. xs) mgr tick"
    using assms by (intro update_all_order) (simp add: order_ok_def)
  then show ?case using Cons.IH by simp
qed

lemma run_manager_order:
  assumes "order_ok order"
  shows "run_manager order n mgr ticks = run_manager (\<lambda>n i xs. xs) n mgr ticks"
proof (induction ticks arbitrary: n mgr)
  case Nil
  then show ?case by simp
next
  case (Cons tick ticks)
  have "update_all (order n) mgr tick = update_all (\<lambda>i xs. xs) mgr tick"
    using assms by (intro update_all_order) (simp add: order_ok_def)
  then show ?case using Cons.IH by simp
qed

lemma metrics_write_values: "metrics (write_values mgr keys full_keys values) = metrics mgr"
  by (simp add: write_values_def)

lemma metrics_update_metric:
  "metrics (update_metric order tick mgr i) = (metrics mgr)[i := metric_update (metrics mgr ! i) tick]"
  by (simp add: update_metric_def Let_def metrics_write_values)

lemma metrics_loop:
  assumes "k \<le> length (metrics mgr)"
  shows "metrics (foldl (\<lambda>mgr i. update_metric (order i) tick mgr i) mgr [0..<k])
       = map (\<lambda>m. metric_update m tick) (take k (metrics mgr)) @ drop k (metrics mgr)"
  using assms
proof (induction k)
  case 0
  then show ?case by simp
next
  case (Suc k)
  let ?ms = "metrics mgr"
  let ?f = "\<lambda>m. metric_update m tick"
  have k: "k < length ?ms" using Suc.prems by simp
  have ih: "metrics (foldl (\<lambda>mgr i. update_metric (order i) tick mgr i) mgr [0..<k])
       = map ?f (take k ?ms) @ drop k ?ms" using Suc by simp
  have lk: "length (map ?f (take k ?ms)) = k" using k by simp
  have d: "drop k ?ms = ?ms ! k # drop (Suc k) ?ms" using k by (simp add: Cons_nth_drop_Suc)
  have n: "(map ?f (take k ?ms) @ drop k ?ms) ! k = ?ms ! k"
    using lk by (simp add: nth_append d)
  have "(map ?f (take k ?ms) @ drop k ?ms)[k := ?f (?ms ! k)]
        = map ?f (take k ?ms) @ (?f (?ms ! k) # drop (Suc k) ?ms)"
    using lk by (simp add: list_update_append d)
  also have "\<dots> = map ?f (take (Suc k) ?ms) @ drop (Suc k) ?ms"
    using k by (simp add: take_Suc_conv_app_nth)
  finally show ?case
    by (simp add: metrics_update_metric ih n)
qed

lemma metrics_update_all:
  "metrics (fst (update_all order mgr tick)) = map (\<lambda>m. metric_update m tick) (metrics mgr)"
  unfolding update_all_def Let_def fst_conv
  using metrics_loop[of "length (metrics mgr)" mgr order tick] by simp

lemma metrics_run_manager:
  "metrics (run_manager order n mgr ticks) = map (\<lambda>m. foldl metric_update m ticks) (metrics mgr)"
proof (induction ticks arbitrary: n mgr)
  case Nil
  then show ?case by simp
next
  case (Cons tick ticks)
  show ?case by (simp add: Cons.IH metrics_update_all)
qed

lemma run_snapshots_prefix:
  "take (length ticks) (run_snapshots order n mgr (ticks @ later)) = run_snapshots order n mgr ticks"
  by (induction ticks arbitrary: n mgr) simp_all

lemma length_run_snapshots: "length (run_snapshots order n mgr ticks) = length ticks"
  by (induction ticks arbitrary: n mgr) simp_all

lemma session_at_21: "SessionMetric_update_from_struct m (tick_at 21 0) = m\<lparr>session := ''Other''\<rparr>"
  by (simp add: SessionMetric_update_from_struct_def tick_at_def SESSION_TABLE_nth table_entry_def Let_def)

lemma session_at_14: "SessionMetric_update_from_struct m (tick_at 14 30) = m\<lparr>session := ''London_New_York_Overlap''\<rparr>"
  by (simp add: SessionMetric_update_from_struct_def tick_at_def SESSION_TABLE_nth table_entry_def Let_def)

lemma market_first:
  "update_all (\<lambda>i xs. xs) (MetricsManager_init [session_metric, market_metric]) (tick_at 21 0) =
     (\<lparr>metrics = [session_metric\<lparr>m_state := \<lparr>sm_name = ''session'', session = ''Other''\<rparr>\<rparr>,
                  market_metric\<lparr>m_state := \<lparr>sm_name = ''market'', session = ''Other''\<rparr>\<rparr>],
       key_cache = [[''session_label''], [''closed'', ''reason'']],
       full_key_cache = [[''session.session_label''], [''market.closed'', ''market.reason'']],
       snapshot = [(''session.session_label'', Some ''Other''),
                   (''market.closed'', Some ''yes''), (''market.reason'', Some ''Other'')]\<rparr>,
      [(''session.session_label'', Some ''Other''),
       (''market.closed'', Some ''yes''), (''market.reason'', Some ''Other'')])"
  by (simp add: update_all_def update_metric_def Let_def metric_update_def needs_refresh_def
      write_values_def dict_get_def dict_pop_def session_metric_def market_metric_def
      MetricsManager_init_def session_at_21 SessionMetric_init_def upt_rec)


lemma market_second:
  "snd (update_all (\<lambda>i xs. xs)
     \<lparr>metrics = [session_metric\<lparr>m_state := \<lparr>sm_name = ''session'', session = ''Other''\<rparr>\<rparr>,
                  market_metric\<lparr>m_state := \<lparr>sm_name = ''market'', session = ''Other''\<rparr>\<rparr>],
       key_cache = [[''session_label''], [''closed'', ''reason'']],
       full_key_cache = [[''session.session_label''], [''market.closed'', ''market.reason'']],
       snapshot = [(''session.session_label'', Some ''Other''),
                   (''market.closed'', Some ''yes''), (''market.reason'', Some ''Other'')]\<rparr>
     (tick_at 14 30)) =
   [(''session.session_label'', Some ''London_New_York_Overlap''),
    (''market.open'', Some ''London_New_York_Overlap'')]"
  by (simp add: update_all_def update_metric_def Let_def metric_update_def needs_refresh_def
      write_values_def dict_get_def dict_pop_def session_metric_def market_metric_def
      session_at_14 upt_rec)

lemma market_run:
  "run_snapshots (\<lambda>n i xs. xs) 0 (MetricsManager_init [session_metric, market_metric])
     [tick_at 21 0, tick_at 14 30] =
   [[(''session.session_label'', Some ''Other''),
     (''market.closed'', Some ''yes''), (''market.reason'', Some ''Other'')],
    [(''session.session_label'', Some ''London_New_York_Overlap''),
     (''market.open'', Some ''London_New_York_Overlap'')]]"
  unfolding run_snapshots.simps market_first fst_conv snd_conv market_second ..

text \<open>
  C1. Two runs of \<open>update_all\<close> over the same tick sequence, from managers built
  over the same metric objects, return the same sequence of snapshot dictionaries, key
  order included, and leave the same manager behind, whatever order the two processes
  iterate their sets of obsolete keys in. Each metric's state after the run is its own
  constructed state folded over the ticks, whatever the other metrics, the key caches
  and the snapshot hold; and the snapshots returned for a prefix of a tick sequence are
  those of the run over the prefix alone.
\<close>

theorem update_all_deterministic:
  assumes "order_ok order1" "order_ok order2"
  shows "run_snapshots order1 0 (MetricsManager_init ms) ticks
           = run_snapshots order2 0 (MetricsManager_init ms) ticks \<and>
         run_manager order1 0 (MetricsManager_init ms) ticks
           = run_manager order2 0 (MetricsManager_init ms) ticks \<and>
         metrics (run_manager order1 0 (MetricsManager_init ms) ticks)
           = map (\<lambda>m. foldl metric_update m ticks) ms \<and>
         take (length ticks) (run_snapshots order1 0 (MetricsManager_init ms) (ticks @ later))
           = run_snapshots order1 0 (MetricsManager_init ms) ticks"
proof -
  have "run_snapshots order1 0 (MetricsManager_init ms) ticks
           = run_snapshots order2 0 (MetricsManager_init ms) ticks"
    unfolding run_snapshots_order[OF assms(1)] run_snapshots_order[OF assms(2)] ..
  moreover have "run_manager order1 0 (MetricsManager_init ms) ticks
           = run_manager order2 0 (MetricsManager_init ms) ticks"
    unfolding run_manager_order[OF assms(1)] run_manager_order[OF assms(2)] ..
  moreover have "metrics (run_manager order1 0 (MetricsManager_init ms) ticks)
           = map (\<lambda>m. foldl metric_update m ticks) ms"
    unfolding metrics_run_manager by (simp add: MetricsManager_init_def)
  ultimately show ?thesis using run_snapshots_prefix by blast
qed

text \<open>
  A session metric and the market object over a tick at 21:00 and one at 14:30: the
  second call drops the two keys of the closed market, in either order, and both runs
  return the same two dictionaries.
\<close>

theorem update_all_deterministic_witness:
  "run_snapshots (\<lambda>n i. rev) 0 (MetricsManager_init [session_metric, market_metric])
     [tick_at 21 0, tick_at 14 30] =
   [[(''session.session_label'', Some ''Other''),
     (''market.closed'', Some ''yes''), (''market.reason'', Some ''Other'')],
    [(''session.session_label'', Some ''London_New_York_Overlap''),
     (''market.open'', Some ''London_New_York_Overlap'')]]"
proof -
  have ok: "order_ok (\<lambda>n i. rev)" "order_ok (\<lambda>n i xs. xs)"
    by (simp_all add: order_ok_def)
  from update_all_deterministic[OF ok, of "[session_metric, market_metric]"
        "[tick_at 21 0, tick_at 14 30]" "[]"]
  have "run_snapshots (\<lambda>n i. rev) 0 (MetricsManager_init [session_metric, market_metric])
          [tick_at 21 0, tick_at 14 30]
        = run_snapshots (\<lambda>n i xs. xs) 0 (MetricsManager_init [session_metric, market_metric])
          [tick_at 21 0, tick_at 14 30]"
    by (rule conjunct1)
  then show ?thesis unfolding market_run .
qed

end
